theory Spec2Isabelle
  imports Main "HOL-Library.Word" "HOL-Library.Multiset"
begin

unbundle bit_operations_syntax

section \<open>ircd/list.c: records, free lists and the global client list\<close>

text \<open>
  The model follows \<^verbatim>\<open>ircd/list.c\<close> as it is compiled with assertions enabled and
  without \<^verbatim>\<open>DEBUGMODE\<close> (so the \<^verbatim>\<open>liststats\<close> counters and \<^verbatim>\<open>Debug(...)\<close> calls are
  absent). A pointer is a natural number, \<open>0\<close> is \<^verbatim>\<open>NULL\<close>. Every kind of structure has
  its own memory, a total function from addresses to records: memory that was never
  written holds whatever the function holds there, which is how the unspecified content
  of a \<^verbatim>\<open>MyMalloc\<close> block is represented. A failed \<^verbatim>\<open>assert\<close> and a dereference of
  \<^verbatim>\<open>NULL\<close> are results of the model, not undefined values.
\<close>

type_synonym ptr = nat

datatype error = AssertFailed | NullDeref

subsection \<open>Structures\<close>

text \<open>
  \<^verbatim>\<open>struct Timer\<close> is declared in \<^verbatim>\<open>ircd_events.h\<close>, which is not part of the sources
  at hand. list.c observes a timer only through \<^verbatim>\<open>t_active\<close> and \<^verbatim>\<open>t_onqueue\<close>, so the
  timer is the pair of these two observations.
\<close>

record Timer =
  t_active :: bool
  t_onqueue :: bool

text \<open>
  Modelled from the spec: \<^verbatim>\<open>struct MsgQ\<close> (\<^verbatim>\<open>msgq.h\<close>) and \<^verbatim>\<open>struct DBuf\<close> (\<^verbatim>\<open>dbuf.h\<close>)
  are not part of the sources at hand. The spec's Connection holds a "receive dbuffer, a
  normal output message queue and a priority output message queue": the send queue is
  the two lists of queued messages, the receive buffer the bytes received and not yet
  parsed.
\<close>

record MsgQ =
  mq_queue :: "string list"
  mq_prio :: "string list"

type_synonym DBuf = string

text \<open>The fields of \<^verbatim>\<open>struct Connection\<close> that list.c reads or writes, or hands to a
  function that clears them.\<close>

record Connection =
  con_magic :: nat
  con_next :: ptr
  con_client :: ptr
  con_fd :: int
  con_freeflag :: int
  con_nextnick :: int
  con_nexttarget :: int
  con_handler :: int
  con_dns_reply :: ptr
  con_listener :: ptr
  con_auth :: ptr
  con_since :: int
  con_lasttime :: int
  con_unreg :: int
  con_sendQ :: MsgQ
  con_recvQ :: DBuf
  con_proc :: Timer

text \<open>The fields of \<^verbatim>\<open>struct Client\<close> that list.c reads or writes.\<close>

record Client =
  cli_magic :: nat
  cli_next :: ptr
  cli_prev :: ptr
  cli_hnext :: ptr
  cli_connect :: ptr
  cli_user :: ptr
  cli_serv :: ptr
  cli_status :: int
  cli_firsttime :: int
  cli_lastnick :: int
  cli_username :: string

text \<open>The fields of \<^verbatim>\<open>struct Server\<close> that \<^verbatim>\<open>remove_client_from_list\<close> reads.\<close>

record Server =
  serv_user :: ptr
  serv_client_list :: ptr
  serv_last_error_msg :: ptr

record SLink =
  sl_next :: ptr
  sl_cptr :: ptr

record DLink =
  dl_next :: ptr
  dl_prev :: ptr
  dl_cptr :: ptr

text \<open>
  Calls that leave list.c (\<^verbatim>\<open>close\<close>, \<^verbatim>\<open>MsgQClear\<close>, \<^verbatim>\<open>socket_del\<close>, \<^verbatim>\<open>add_history\<close>,
  \<^verbatim>\<open>free_user\<close>, \<^verbatim>\<open>MyFree\<close> of memory list.c does not manage, ...) are recorded, in
  program order, as events. Their code is not part of the sources at hand. Two of them
  are handed a field of the connection and empty it, which the model does as well as
  recording the call: \<^verbatim>\<open>MsgQClear\<close> the send queue and \<^verbatim>\<open>DBufClear\<close> the receive buffer.
  The others are taken to change none of the fields of the records below.
\<close>

datatype event =
    MyFree ptr
  | Close int
  | MsgQClear ptr
  | ClientDropSendq ptr
  | DBufClear ptr
  | ReleaseListener ptr
  | SocketDel ptr
  | TimerDel ptr
  | DestroyAuthRequest ptr
  | AddHistory ptr
  | OffHistory ptr
  | FreeUser ptr

text \<open>
  The constants of the headers (\<^verbatim>\<open>config.h\<close>, \<^verbatim>\<open>client.h\<close>, \<^verbatim>\<open>struct.h\<close>, ...) that
  list.c uses. The headers are not part of the sources at hand, so the values are
  parameters of the model.
\<close>

record config =
  MAXCONNECTIONS :: int
  CLIENT_MAGIC :: nat
  CONNECTION_MAGIC :: nat
  NICK_DELAY :: int
  TARGET_DELAY :: int
  STARTTARGETS :: int
  UNREGISTERED_HANDLER :: int
  CLIREG_INIT :: int
  FREEFLAG_SOCKET :: int
  FREEFLAG_TIMER :: int
  STAT_ME :: int
  STAT_USER :: int

text \<open>
  The program state: the memories, the addresses \<^verbatim>\<open>MyMalloc\<close> has handed out for each
  kind of structure, the static variables of list.c, \<^verbatim>\<open>GlobalClientList\<close>, the clock,
  the \<^verbatim>\<open>struct DLink *\<close> variables that \<^verbatim>\<open>add_dlink\<close> and \<^verbatim>\<open>remove_dlink\<close> are given
  the address of, and the events so far.
\<close>

record state =
  clients :: "ptr \<Rightarrow> Client"
  client_mem :: "ptr list"
  conns :: "ptr \<Rightarrow> Connection"
  conn_mem :: "ptr list"
  servers :: "ptr \<Rightarrow> Server"
  slinks :: "ptr \<Rightarrow> SLink"
  slink_mem :: "ptr list"
  dlinks :: "ptr \<Rightarrow> DLink"
  dlink_mem :: "ptr list"
  dlink_vars :: "ptr \<Rightarrow> ptr"
  clientAllocCount :: "32 word"
  clientFreeList :: ptr
  connectionAllocCount :: "32 word"
  connectionFreeList :: ptr
  slinkAllocCount :: "32 word"
  slinkFreeList :: ptr
  GlobalClientList :: ptr
  CurrentTime :: int
  TSoffset :: int
  events :: "event list"

subsection \<open>Memory\<close>

text \<open>
  Modelled from the spec: \<^verbatim>\<open>MyMalloc\<close> (\<^verbatim>\<open>ircd_alloc.h\<close>) is not part of the sources at
  hand. The spec's pool "allocates fresh on exhaustion": the model returns an address
  that is not \<^verbatim>\<open>NULL\<close> and is not among the blocks handed out so far (the server exits
  when memory runs out, so no caller sees \<^verbatim>\<open>NULL\<close>). The content of the block is not
  touched.
\<close>

definition MyMalloc :: "ptr list \<Rightarrow> ptr" where
  "MyMalloc mem = Suc (fold max mem 0)"

text \<open>\<^verbatim>\<open>memset(p, 0, sizeof *p)\<close>: every field is zero.\<close>

definition zero_Timer :: Timer where
  "zero_Timer = \<lparr>t_active = False, t_onqueue = False\<rparr>"

definition empty_MsgQ :: MsgQ where
  "empty_MsgQ = \<lparr>mq_queue = [], mq_prio = []\<rparr>"

definition zero_Connection :: Connection where
  "zero_Connection =
     \<lparr>con_magic = 0, con_next = 0, con_client = 0, con_fd = 0, con_freeflag = 0,
      con_nextnick = 0, con_nexttarget = 0, con_handler = 0, con_dns_reply = 0,
      con_listener = 0, con_auth = 0, con_since = 0, con_lasttime = 0, con_unreg = 0,
      con_sendQ = empty_MsgQ, con_recvQ = [], con_proc = zero_Timer\<rparr>"

definition zero_Client :: Client where
  "zero_Client =
     \<lparr>cli_magic = 0, cli_next = 0, cli_prev = 0, cli_hnext = 0, cli_connect = 0,
      cli_user = 0, cli_serv = 0, cli_status = 0, cli_firsttime = 0, cli_lastnick = 0,
      cli_username = []\<rparr>"

text \<open>
  Modelled from the spec: \<^verbatim>\<open>timer_init\<close> (\<^verbatim>\<open>ircd_events.c\<close>) is not part of the sources
  at hand. A freshly initialised timer is not armed: neither active nor on the queue.
\<close>

definition timer_init :: "Timer \<Rightarrow> Timer" where
  "timer_init t = t\<lparr>t_active := False, t_onqueue := False\<rparr>"

definition log_event :: "event list \<Rightarrow> state \<Rightarrow> state" where
  "log_event evs s = s\<lparr>events := events s @ evs\<rparr>"

definition upd_client :: "ptr \<Rightarrow> (Client \<Rightarrow> Client) \<Rightarrow> state \<Rightarrow> state" where
  "upd_client p f s = s\<lparr>clients := (clients s)(p := f (clients s p))\<rparr>"

definition upd_conn :: "ptr \<Rightarrow> (Connection \<Rightarrow> Connection) \<Rightarrow> state \<Rightarrow> state" where
  "upd_conn p f s = s\<lparr>conns := (conns s)(p := f (conns s p))\<rparr>"

definition upd_dlink :: "ptr \<Rightarrow> (DLink \<Rightarrow> DLink) \<Rightarrow> state \<Rightarrow> state" where
  "upd_dlink p f s = s\<lparr>dlinks := (dlinks s)(p := f (dlinks s p))\<rparr>"

subsection \<open>Accessor macros of client.h\<close>

text \<open>
  Modelled from the spec: \<^verbatim>\<open>client.h\<close> is not part of the sources at hand. The spec's
  Connection "holds the file descriptor, ..., authentication request handle, ..., the
  handshake-processing timer", and list.c releases the connection of a client only
  after testing \<^verbatim>\<open>cli_freeflag\<close> and \<^verbatim>\<open>cli_proc\<close> of the client, and clears
  \<^verbatim>\<open>cli_from\<close> of the client before \<^verbatim>\<open>free_connection\<close> can find \<^verbatim>\<open>con_client\<close>
  cleared: \<^verbatim>\<open>cli_from\<close>, \<^verbatim>\<open>cli_fd\<close>, \<^verbatim>\<open>cli_freeflag\<close>, \<^verbatim>\<open>cli_proc\<close>, \<^verbatim>\<open>cli_auth\<close>,
  \<^verbatim>\<open>cli_since\<close>, \<^verbatim>\<open>cli_lasttime\<close> and \<^verbatim>\<open>cli_unreg\<close> read the connection the client's
  \<^verbatim>\<open>cli_connect\<close> points to (\<^verbatim>\<open>cli_from(c)\<close> is \<^verbatim>\<open>con_client(cli_connect(c))\<close>).
  \<^verbatim>\<open>cli_verify\<close> and \<^verbatim>\<open>con_verify\<close> compare the magic word with the structure's magic
  number; \<^verbatim>\<open>IsMe\<close> and \<^verbatim>\<open>IsUser\<close> compare the status.
\<close>

definition cli_verify :: "config \<Rightarrow> state \<Rightarrow> ptr \<Rightarrow> bool" where
  "cli_verify K s cptr = (cli_magic (clients s cptr) = CLIENT_MAGIC K)"

definition con_verify :: "config \<Rightarrow> state \<Rightarrow> ptr \<Rightarrow> bool" where
  "con_verify K s con = (con_magic (conns s con) = CONNECTION_MAGIC K)"

definition cli_from :: "state \<Rightarrow> ptr \<Rightarrow> ptr" where
  "cli_from s cptr = con_client (conns s (cli_connect (clients s cptr)))"

definition cli_fd :: "state \<Rightarrow> ptr \<Rightarrow> int" where
  "cli_fd s cptr = con_fd (conns s (cli_connect (clients s cptr)))"

definition cli_freeflag :: "state \<Rightarrow> ptr \<Rightarrow> int" where
  "cli_freeflag s cptr = con_freeflag (conns s (cli_connect (clients s cptr)))"

definition cli_proc :: "state \<Rightarrow> ptr \<Rightarrow> Timer" where
  "cli_proc s cptr = con_proc (conns s (cli_connect (clients s cptr)))"

definition cli_auth :: "state \<Rightarrow> ptr \<Rightarrow> ptr" where
  "cli_auth s cptr = con_auth (conns s (cli_connect (clients s cptr)))"

definition IsMe :: "config \<Rightarrow> state \<Rightarrow> ptr \<Rightarrow> bool" where
  "IsMe K s cptr = (cli_status (clients s cptr) = STAT_ME K)"

definition IsUser :: "config \<Rightarrow> state \<Rightarrow> ptr \<Rightarrow> bool" where
  "IsUser K s cptr = (cli_status (clients s cptr) = STAT_USER K)"

text \<open>
  Modelled from the spec: \<^verbatim>\<open>TStime\<close> (\<^verbatim>\<open>ircd.h\<close>) is not part of the sources at hand;
  it is the network time, the local clock plus the offset agreed with the peers.
\<close>

definition TStime :: "state \<Rightarrow> int" where
  "TStime s = CurrentTime s + TSoffset s"

subsection \<open>The pool: init\_list, alloc\_client, dealloc\_client, alloc\_connection, dealloc\_connection\<close>

text \<open>One round of the loop of \<^verbatim>\<open>init_list\<close>: a client and a connection are allocated and
  pushed on their free lists.\<close>

definition init_list_step :: "state \<Rightarrow> state" where
  "init_list_step s =
     (let cptr = MyMalloc (client_mem s);
          s = s\<lparr>client_mem := cptr # client_mem s\<rparr>;
          s = upd_client cptr (\<lambda>c. c\<lparr>cli_next := clientFreeList s\<rparr>) s;
          s = s\<lparr>clientFreeList := cptr\<rparr>;
          s = s\<lparr>clientAllocCount := clientAllocCount s + 1\<rparr>;
          con = MyMalloc (conn_mem s);
          s = s\<lparr>conn_mem := con # conn_mem s\<rparr>;
          s = upd_conn con (\<lambda>c. c\<lparr>con_next := connectionFreeList s\<rparr>) s;
          s = s\<lparr>connectionFreeList := con\<rparr>;
          s = s\<lparr>connectionAllocCount := connectionAllocCount s + 1\<rparr>
      in s)"

text \<open>\<^verbatim>\<open>for (i = 0; i < MAXCONNECTIONS; ++i)\<close>, by the number of rounds left.\<close>

fun init_list_loop :: "nat \<Rightarrow> state \<Rightarrow> state" where
  "init_list_loop 0 s = s"
| "init_list_loop (Suc n) s = init_list_loop n (init_list_step s)"

definition init_list :: "config \<Rightarrow> state \<Rightarrow> state" where
  "init_list K s = init_list_loop (nat (MAXCONNECTIONS K)) s"

definition alloc_client :: "state \<Rightarrow> ptr \<times> state" where
  "alloc_client s =
     (let cptr = clientFreeList s;
          (cptr, s) =
            (if cptr = 0
             then (let p = MyMalloc (client_mem s)
                   in (p, s\<lparr>client_mem := p # client_mem s,
                             clientAllocCount := clientAllocCount s + 1\<rparr>))
             else (cptr, s\<lparr>clientFreeList := cli_next (clients s cptr)\<rparr>))
      in (cptr, upd_client cptr (\<lambda>_. zero_Client) s))"

definition dealloc_client :: "config \<Rightarrow> state \<Rightarrow> ptr \<Rightarrow> error + state" where
  "dealloc_client K s cptr =
     (if cptr = 0 then Inl NullDeref
      else if \<not> cli_verify K s cptr then Inl AssertFailed
      else if 0 \<noteq> cli_connect (clients s cptr) then Inl AssertFailed
      else
        (let s = upd_client cptr (\<lambda>c. c\<lparr>cli_next := clientFreeList s\<rparr>) s;
             s = s\<lparr>clientFreeList := cptr\<rparr>;
             s = upd_client cptr (\<lambda>c. c\<lparr>cli_magic := 0\<rparr>) s
         in Inr s))"

definition alloc_connection :: "state \<Rightarrow> ptr \<times> state" where
  "alloc_connection s =
     (let con = connectionFreeList s;
          (con, s) =
            (if con = 0
             then (let p = MyMalloc (conn_mem s)
                   in (p, s\<lparr>conn_mem := p # conn_mem s,
                             connectionAllocCount := connectionAllocCount s + 1\<rparr>))
             else (con, s\<lparr>connectionFreeList := con_next (conns s con)\<rparr>));
          s = upd_conn con (\<lambda>_. zero_Connection) s;
          s = upd_conn con (\<lambda>c. c\<lparr>con_proc := timer_init (con_proc c)\<rparr>) s
      in (con, s))"

text \<open>
  Modelled from the spec: \<^verbatim>\<open>MsgQClear\<close> (\<^verbatim>\<open>msgq.c\<close>), \<^verbatim>\<open>DBufClear\<close> (\<^verbatim>\<open>dbuf.c\<close>) and
  \<^verbatim>\<open>client_drop_sendq\<close> are not part of the sources at hand. The comment of
  \<^verbatim>\<open>dealloc_connection\<close> says that the queues of the connection "are cleared", and the
  spec's close "clears queues": after \<^verbatim>\<open>MsgQClear\<close> the send queue handed to it is
  empty, after \<^verbatim>\<open>DBufClear\<close> the receive buffer is. \<^verbatim>\<open>client_drop_sendq\<close> is handed the
  connection and is recorded as a call.
\<close>

definition dealloc_connection :: "config \<Rightarrow> state \<Rightarrow> ptr \<Rightarrow> error + state" where
  "dealloc_connection K s con =
     (if con = 0 then Inl NullDeref
      else if \<not> con_verify K s con then Inl AssertFailed
      else if t_active (con_proc (conns s con)) then Inl AssertFailed
      else if t_onqueue (con_proc (conns s con)) then Inl AssertFailed
      else
        (let s = (if con_dns_reply (conns s con) \<noteq> 0
                  then upd_conn con (\<lambda>c. c\<lparr>con_dns_reply := 0\<rparr>)
                         (log_event [MyFree (con_dns_reply (conns s con))] s)
                  else s);
             s = (if -1 < con_fd (conns s con)
                  then log_event [Close (con_fd (conns s con))] s else s);
             s = upd_conn con (\<lambda>c. c\<lparr>con_sendQ := empty_MsgQ\<rparr>) (log_event [MsgQClear con] s);
             s = log_event [ClientDropSendq con] s;
             s = upd_conn con (\<lambda>c. c\<lparr>con_recvQ := []\<rparr>) (log_event [DBufClear con] s);
             s = (if con_listener (conns s con) \<noteq> 0
                  then log_event [ReleaseListener (con_listener (conns s con))] s else s);
             s = upd_conn con (\<lambda>c. c\<lparr>con_next := connectionFreeList s\<rparr>) s;
             s = s\<lparr>connectionFreeList := con\<rparr>;
             s = upd_conn con (\<lambda>c. c\<lparr>con_magic := 0\<rparr>) s
         in Inr s))"

subsection \<open>make\_client, free\_connection, free\_client\<close>

definition make_client :: "config \<Rightarrow> state \<Rightarrow> ptr \<Rightarrow> int \<Rightarrow> error + ptr \<times> state" where
  "make_client K s from status =
     (if \<not> (from = 0 \<or> cli_verify K s from) then Inl AssertFailed
      else
        (let (cptr, s) = alloc_client s in
         if \<not> (0 \<noteq> cptr) then Inl AssertFailed
         else if \<not> (cli_magic (clients s cptr) = 0) then Inl AssertFailed
         else if \<not> (0 = from \<or> 0 \<noteq> cli_connect (clients s from)) then Inl AssertFailed
         else
           (case
              (if from = 0
               then
                 (let (con, s) = alloc_connection s in
                  if \<not> (0 \<noteq> con) then Inl AssertFailed
                  else if \<not> (con_magic (conns s con) = 0) then Inl AssertFailed
                  else
                    (let s = upd_conn con (\<lambda>c. c\<lparr>con_magic := CONNECTION_MAGIC K\<rparr>) s;
                         s = upd_conn con (\<lambda>c. c\<lparr>con_fd := -1\<rparr>) s;
                         s = upd_conn con (\<lambda>c. c\<lparr>con_freeflag := 0\<rparr>) s;
                         s = upd_conn con (\<lambda>c. c\<lparr>con_nextnick := CurrentTime s - NICK_DELAY K\<rparr>) s;
                         s = upd_conn con
                               (\<lambda>c. c\<lparr>con_nexttarget :=
                                         CurrentTime s - (TARGET_DELAY K * (STARTTARGETS K - 1))\<rparr>) s;
                         s = upd_conn con (\<lambda>c. c\<lparr>con_handler := UNREGISTERED_HANDLER K\<rparr>) s;
                         s = upd_conn con (\<lambda>c. c\<lparr>con_client := cptr\<rparr>) s;
                         s = upd_client cptr (\<lambda>c. c\<lparr>cli_connect := con\<rparr>) s;
                         s = upd_client cptr (\<lambda>c. c\<lparr>cli_firsttime := CurrentTime s\<rparr>) s;
                         s = upd_conn (cli_connect (clients s cptr))
                               (\<lambda>c. c\<lparr>con_lasttime := CurrentTime s\<rparr>) s;
                         s = upd_conn (cli_connect (clients s cptr))
                               (\<lambda>c. c\<lparr>con_since := CurrentTime s\<rparr>) s;
                         s = upd_client cptr (\<lambda>c. c\<lparr>cli_lastnick := TStime s\<rparr>) s;
                         s = upd_conn (cli_connect (clients s cptr))
                               (\<lambda>c. c\<lparr>con_unreg := CLIREG_INIT K\<rparr>) s
                     in Inr s))
               else Inr (upd_client cptr (\<lambda>c. c\<lparr>cli_connect := cli_connect (clients s from)\<rparr>) s))
            of
              Inl e \<Rightarrow> Inl e
            | Inr s \<Rightarrow>
                if cli_connect (clients s cptr) = 0 then Inl NullDeref
                else if \<not> con_verify K s (cli_connect (clients s cptr)) then Inl AssertFailed
                else
                  (let s = upd_client cptr (\<lambda>c. c\<lparr>cli_magic := CLIENT_MAGIC K\<rparr>) s;
                       s = upd_client cptr (\<lambda>c. c\<lparr>cli_status := status\<rparr>) s;
                       s = upd_client cptr (\<lambda>c. c\<lparr>cli_hnext := cptr\<rparr>) s;
                       s = upd_client cptr (\<lambda>c. c\<lparr>cli_username := ''unknown''\<rparr>) s
                   in Inr (cptr, s)))))"

definition free_connection :: "config \<Rightarrow> state \<Rightarrow> ptr \<Rightarrow> error + state" where
  "free_connection K s con =
     (if con = 0 then Inr s
      else if \<not> con_verify K s con then Inl AssertFailed
      else if 0 \<noteq> con_client (conns s con) then Inl AssertFailed
      else dealloc_connection K s con)"

text \<open>
  \<^verbatim>\<open>cli_auth(cptr)\<close> and \<^verbatim>\<open>cli_from(cptr)\<close> dereference \<^verbatim>\<open>cli_connect(cptr)\<close>, so a client
  without a connection is a \<^verbatim>\<open>NULL\<close> dereference here. \<^verbatim>\<open>socket_del\<close> and \<^verbatim>\<open>timer_del\<close>
  (\<^verbatim>\<open>ircd_events.c\<close>, not part of the sources at hand) are recorded as the queued
  deletions the comments of list.c say they are.
\<close>

definition free_client :: "config \<Rightarrow> state \<Rightarrow> ptr \<Rightarrow> error + state" where
  "free_client K s cptr =
     (if cptr = 0 then Inr s
      else if \<not> cli_verify K s cptr then Inl AssertFailed
      else if \<not> (cli_hnext (clients s cptr) = cptr) then Inl AssertFailed
      else if \<not> (cli_next (clients s cptr) = 0) then Inl AssertFailed
      else if \<not> (cli_prev (clients s cptr) = 0) then Inl AssertFailed
      else if cli_connect (clients s cptr) = 0 then Inl NullDeref
      else
        (let s = (if cli_auth s cptr \<noteq> 0
                  then log_event [DestroyAuthRequest (cli_auth s cptr)] s else s) in
         if \<not> (cli_next (clients s cptr) = 0) then Inl AssertFailed
         else if \<not> (cli_prev (clients s cptr) = 0) then Inl AssertFailed
         else
           (case
              (if cli_from s cptr = cptr
               then
                 (let s = upd_conn (cli_connect (clients s cptr)) (\<lambda>c. c\<lparr>con_client := 0\<rparr>) s in
                  if cli_freeflag s cptr = 0 \<and> \<not> t_active (cli_proc s cptr)
                  then dealloc_connection K s (cli_connect (clients s cptr))
                  else
                    (let s = (if -1 < cli_fd s cptr \<and> cli_freeflag s cptr AND FREEFLAG_SOCKET K \<noteq> 0
                              then log_event [SocketDel (cli_connect (clients s cptr))] s else s);
                         s = (if cli_freeflag s cptr AND FREEFLAG_TIMER K \<noteq> 0
                              then log_event [TimerDel (cli_connect (clients s cptr))] s else s)
                     in Inr s))
               else Inr s)
            of
              Inl e \<Rightarrow> Inl e
            | Inr s \<Rightarrow> dealloc_client K (upd_client cptr (\<lambda>c. c\<lparr>cli_connect := 0\<rparr>) s) cptr)))"

subsection \<open>The global client list\<close>

text \<open>
  \<^verbatim>\<open>add_history\<close>, \<^verbatim>\<open>off_history\<close> (\<^verbatim>\<open>whowas.c\<close>) and \<^verbatim>\<open>free_user\<close> (\<^verbatim>\<open>s_user.c\<close>) are not
  part of the sources at hand: the calls are recorded as events. The body of
  \<^verbatim>\<open>remove_client_from_list\<close> is given in three parts: its assertions, the two blocks
  below, and the final call of \<^verbatim>\<open>free_client\<close>.
\<close>

text \<open>Lines 369 to 379 of \<^verbatim>\<open>remove_client_from_list\<close>: the client is taken out of
  \<^verbatim>\<open>GlobalClientList\<close> if its \<^verbatim>\<open>cli_next\<close> is not \<^verbatim>\<open>NULL\<close>, and its two links are
  cleared.\<close>

definition delink_client :: "state \<Rightarrow> ptr \<Rightarrow> state" where
  "delink_client s cptr =
     (let s =
            (if cli_next (clients s cptr) \<noteq> 0
             then
               (let s =
                      (if cli_prev (clients s cptr) \<noteq> 0
                       then upd_client (cli_prev (clients s cptr))
                              (\<lambda>c. c\<lparr>cli_next := cli_next (clients s cptr)\<rparr>) s
                       else
                         (let s = s\<lparr>GlobalClientList := cli_next (clients s cptr)\<rparr>
                          in upd_client (GlobalClientList s) (\<lambda>c. c\<lparr>cli_prev := 0\<rparr>) s))
                in upd_client (cli_next (clients s cptr))
                     (\<lambda>c. c\<lparr>cli_prev := cli_prev (clients s cptr)\<rparr>) s)
             else s);
          s = upd_client cptr (\<lambda>c. c\<lparr>cli_prev := 0\<rparr>) s;
          s = upd_client cptr (\<lambda>c. c\<lparr>cli_next := 0\<rparr>) s
      in s)"

text \<open>Lines 381 to 402: the whowas history is updated for a user, and the \<^verbatim>\<open>User\<close> and
  \<^verbatim>\<open>Server\<close> structures of the client are freed.\<close>

definition release_sub_records :: "config \<Rightarrow> state \<Rightarrow> ptr \<Rightarrow> state" where
  "release_sub_records K s cptr =
     (let s = (if IsUser K s cptr \<and> cli_user (clients s cptr) \<noteq> 0
               then log_event [OffHistory cptr] (log_event [AddHistory cptr] s) else s);
          s = (if cli_user (clients s cptr) \<noteq> 0
               then upd_client cptr (\<lambda>c. c\<lparr>cli_user := 0\<rparr>)
                      (log_event [FreeUser (cli_user (clients s cptr))] s)
               else s);
          s = (if cli_serv (clients s cptr) \<noteq> 0
               then
                 (let sv = cli_serv (clients s cptr);
                      s = (if serv_user (servers s sv) \<noteq> 0
                           then (log_event [FreeUser (serv_user (servers s sv))] s)
                                  \<lparr>servers := (servers s)(sv := (servers s sv)\<lparr>serv_user := 0\<rparr>)\<rparr>
                           else s);
                      s = (if serv_client_list (servers s sv) \<noteq> 0
                           then log_event [MyFree (serv_client_list (servers s sv))] s else s);
                      s = log_event [MyFree (serv_last_error_msg (servers s sv))] s;
                      s = log_event [MyFree sv] s
                  in s)
               else s)
      in s)"

definition remove_client_from_list :: "config \<Rightarrow> state \<Rightarrow> ptr \<Rightarrow> error + state" where
  "remove_client_from_list K s cptr =
     (if cptr = 0 then Inl NullDeref
      else if \<not> cli_verify K s cptr then Inl AssertFailed
      else if cli_connect (clients s cptr) = 0 then Inl NullDeref
      else if \<not> con_verify K s (cli_connect (clients s cptr)) then Inl AssertFailed
      else if \<not> (cli_prev (clients s cptr) = 0 \<or> cli_verify K s (cli_prev (clients s cptr)))
        then Inl AssertFailed
      else if \<not> (cli_next (clients s cptr) = 0 \<or> cli_verify K s (cli_next (clients s cptr)))
        then Inl AssertFailed
      else if IsMe K s cptr then Inl AssertFailed
      else
        (let s = delink_client s cptr;
             s = release_sub_records K s cptr
         in free_client K s cptr))"

definition add_client_to_list :: "config \<Rightarrow> state \<Rightarrow> ptr \<Rightarrow> error + state" where
  "add_client_to_list K s cptr =
     (if cptr = 0 then Inl NullDeref
      else if \<not> cli_verify K s cptr then Inl AssertFailed
      else if \<not> (cli_next (clients s cptr) = 0) then Inl AssertFailed
      else if \<not> (cli_prev (clients s cptr) = 0) then Inl AssertFailed
      else
        (let s = upd_client cptr (\<lambda>c. c\<lparr>cli_prev := 0\<rparr>) s;
             s = upd_client cptr (\<lambda>c. c\<lparr>cli_next := GlobalClientList s\<rparr>) s;
             s = s\<lparr>GlobalClientList := cptr\<rparr>;
             s = (if cli_next (clients s cptr) \<noteq> 0
                  then upd_client (cli_next (clients s cptr)) (\<lambda>c. c\<lparr>cli_prev := cptr\<rparr>) s
                  else s)
         in Inr s))"

subsection \<open>Links: make\_link, free\_link, add\_dlink, remove\_dlink\<close>

definition make_link :: "state \<Rightarrow> ptr \<times> state" where
  "make_link s =
     (let lp = slinkFreeList s
      in if lp \<noteq> 0
         then (lp, s\<lparr>slinkFreeList := sl_next (slinks s lp)\<rparr>)
         else (let lp = MyMalloc (slink_mem s)
               in (lp, s\<lparr>slink_mem := lp # slink_mem s,
                          slinkAllocCount := slinkAllocCount s + 1\<rparr>)))"

definition free_link :: "state \<Rightarrow> ptr \<Rightarrow> state" where
  "free_link s lp =
     (if lp \<noteq> 0
      then (let s = s\<lparr>slinks := (slinks s)(lp := (slinks s lp)\<lparr>sl_next := slinkFreeList s\<rparr>)\<rparr>
            in s\<lparr>slinkFreeList := lp\<rparr>)
      else s)"

text \<open>
  \<^verbatim>\<open>lpp\<close> is the address of a \<^verbatim>\<open>struct DLink *\<close> variable; \<open>dlink_vars s lpp\<close> is \<^verbatim>\<open>*lpp\<close>.
  \<^verbatim>\<open>MyFree(lp)\<close> gives the block back: it is no longer among the blocks handed out.
\<close>

definition add_dlink :: "state \<Rightarrow> ptr \<Rightarrow> ptr \<Rightarrow> error + ptr \<times> state" where
  "add_dlink s lpp cp =
     (if lpp = 0 then Inl NullDeref
      else
        (let lp = MyMalloc (dlink_mem s);
             s = s\<lparr>dlink_mem := lp # dlink_mem s\<rparr>
         in if \<not> (0 \<noteq> lp) then Inl AssertFailed
            else
              (let s = upd_dlink lp (\<lambda>d. d\<lparr>dl_cptr := cp\<rparr>) s;
                   s = upd_dlink lp (\<lambda>d. d\<lparr>dl_prev := 0\<rparr>) s;
                   s = upd_dlink lp (\<lambda>d. d\<lparr>dl_next := dlink_vars s lpp\<rparr>) s;
                   s = (if dl_next (dlinks s lp) \<noteq> 0
                        then upd_dlink (dl_next (dlinks s lp)) (\<lambda>d. d\<lparr>dl_prev := lp\<rparr>) s
                        else s);
                   s = s\<lparr>dlink_vars := (dlink_vars s)(lpp := lp)\<rparr>
               in Inr (lp, s))))"

definition remove_dlink :: "state \<Rightarrow> ptr \<Rightarrow> ptr \<Rightarrow> error + state" where
  "remove_dlink s lpp lp =
     (if \<not> (0 \<noteq> lpp) then Inl AssertFailed
      else if \<not> (0 \<noteq> lp) then Inl AssertFailed
      else
        (let s =
               (if dl_prev (dlinks s lp) \<noteq> 0
                then
                  (let s = upd_dlink (dl_prev (dlinks s lp))
                             (\<lambda>d. d\<lparr>dl_next := dl_next (dlinks s lp)\<rparr>) s
                   in if dl_next (dlinks s (dl_prev (dlinks s lp))) \<noteq> 0
                      then upd_dlink (dl_next (dlinks s lp))
                             (\<lambda>d. d\<lparr>dl_prev := dl_prev (dlinks s lp)\<rparr>) s
                      else s)
                else
                  (let s = s\<lparr>dlink_vars := (dlink_vars s)(lpp := dl_next (dlinks s lp))\<rparr>
                   in if dlink_vars s lpp \<noteq> 0
                      then upd_dlink (dl_next (dlinks s lp)) (\<lambda>d. d\<lparr>dl_prev := 0\<rparr>) s
                      else s))
         in Inr (s\<lparr>dlink_mem := removeAll lp (dlink_mem s)\<rparr>)))"

subsection \<open>Linked lists in memory\<close>

text \<open>
  \<open>linked nxt p xs\<close>: following \<open>nxt\<close> from \<open>p\<close> visits exactly the cells \<open>xs\<close>, in this
  order, and then reaches \<^verbatim>\<open>NULL\<close>. \<open>dlinked nxt prv b p xs\<close> asks in addition that the
  back pointer of every cell is the cell before it (\<open>b\<close> for the first cell).
\<close>

fun linked :: "(ptr \<Rightarrow> ptr) \<Rightarrow> ptr \<Rightarrow> ptr list \<Rightarrow> bool" where
  "linked nxt p [] = (p = 0)"
| "linked nxt p (x # xs) = (p = x \<and> x \<noteq> 0 \<and> linked nxt (nxt x) xs)"

fun dlinked :: "(ptr \<Rightarrow> ptr) \<Rightarrow> (ptr \<Rightarrow> ptr) \<Rightarrow> ptr \<Rightarrow> ptr \<Rightarrow> ptr list \<Rightarrow> bool" where
  "dlinked nxt prv b p [] = (p = 0)"
| "dlinked nxt prv b p (x # xs) = (p = x \<and> x \<noteq> 0 \<and> prv x = b \<and> dlinked nxt prv x (nxt x) xs)"

definition client_free_list :: "state \<Rightarrow> ptr list \<Rightarrow> bool" where
  "client_free_list s xs = linked (\<lambda>p. cli_next (clients s p)) (clientFreeList s) xs"

definition connection_free_list :: "state \<Rightarrow> ptr list \<Rightarrow> bool" where
  "connection_free_list s xs = linked (\<lambda>p. con_next (conns s p)) (connectionFreeList s) xs"

definition slink_free_list :: "state \<Rightarrow> ptr list \<Rightarrow> bool" where
  "slink_free_list s xs = linked (\<lambda>p. sl_next (slinks s p)) (slinkFreeList s) xs"

text \<open>The global client list is well formed, with the clients \<open>xs\<close> on it: the head's
  \<^verbatim>\<open>cli_prev\<close> is \<^verbatim>\<open>NULL\<close> and the \<^verbatim>\<open>cli_prev\<close> of every next client points back.\<close>

definition global_client_list :: "state \<Rightarrow> ptr list \<Rightarrow> bool" where
  "global_client_list s xs =
     dlinked (\<lambda>p. cli_next (clients s p)) (\<lambda>p. cli_prev (clients s p)) 0 (GlobalClientList s) xs"

definition dlink_list :: "state \<Rightarrow> ptr \<Rightarrow> ptr list \<Rightarrow> bool" where
  "dlink_list s lpp xs =
     dlinked (\<lambda>p. dl_next (dlinks s p)) (\<lambda>p. dl_prev (dlinks s p)) 0 (dlink_vars s lpp) xs"

subsection \<open>Concrete configurations and states\<close>

text \<open>A configuration with small numbers, and the state of a process that has just
  started: all static variables are zero, nothing has been allocated.\<close>

definition K0 :: config where
  "K0 = \<lparr>MAXCONNECTIONS = 3, CLIENT_MAGIC = 7, CONNECTION_MAGIC = 9, NICK_DELAY = 30,
          TARGET_DELAY = 120, STARTTARGETS = 10, UNREGISTERED_HANDLER = 0, CLIREG_INIT = 3,
          FREEFLAG_SOCKET = 1, FREEFLAG_TIMER = 2, STAT_ME = 16, STAT_USER = 64\<rparr>"

definition s0 :: state where
  "s0 = \<lparr>clients = (\<lambda>_. zero_Client), client_mem = [],
          conns = (\<lambda>_. zero_Connection), conn_mem = [],
          servers = (\<lambda>_. \<lparr>serv_user = 0, serv_client_list = 0, serv_last_error_msg = 0\<rparr>),
          slinks = (\<lambda>_. \<lparr>sl_next = 0, sl_cptr = 0\<rparr>), slink_mem = [],
          dlinks = (\<lambda>_. \<lparr>dl_next = 0, dl_prev = 0, dl_cptr = 0\<rparr>), dlink_mem = [],
          dlink_vars = (\<lambda>_. 0),
          clientAllocCount = 0, clientFreeList = 0,
          connectionAllocCount = 0, connectionFreeList = 0,
          slinkAllocCount = 0, slinkFreeList = 0,
          GlobalClientList = 0, CurrentTime = 1000, TSoffset = 0, events = []\<rparr>"

text \<open>The record of a client that is in use and owns no connection; the state of a
  server whose pool has been primed by \<^verbatim>\<open>init_list\<close>; the state after one local client
  has been made, and the state after that client has been freed again.\<close>

definition in_use :: Client where
  "in_use = zero_Client\<lparr>cli_magic := CLIENT_MAGIC K0\<rparr>"

definition s_primed :: state where
  "s_primed = init_list K0 s0"

definition s_made :: state where
  "s_made = snd (projr (make_client K0 s0 0 (STAT_USER K0)))"

definition s_freed :: state where
  "s_freed = projr (free_client K0 s_made 1)"

text \<open>A state in which the client record 1 is in use, one in which the link 1 is
  allocated and holds the client 9, and one in which the connection record 1 is in use
  with the descriptor 5, two messages queued for sending and a line received.\<close>

definition s_in_use :: state where
  "s_in_use = upd_client 1 (\<lambda>_. in_use) s0"

definition s_link_used :: state where
  "s_link_used = s0\<lparr>slinks := (slinks s0)(1 := \<lparr>sl_next = 0, sl_cptr = 9\<rparr>), slink_mem := [1]\<rparr>"

definition s_conn_in_use :: state where
  "s_conn_in_use =
     upd_conn 1
       (\<lambda>c. c\<lparr>con_magic := CONNECTION_MAGIC K0, con_fd := 5,
              con_sendQ := \<lparr>mq_queue = [''PING :a''], mq_prio = [''ERROR :b'']\<rparr>,
              con_recvQ := ''NICK c''\<rparr>) s0"

text \<open>An entity refers to a connection: the client record is in use (its magic word
  verifies) and its \<^verbatim>\<open>cli_connect\<close> is the connection.\<close>

definition refers :: "config \<Rightarrow> state \<Rightarrow> ptr \<Rightarrow> ptr \<Rightarrow> bool" where
  "refers K s cptr con = (cli_verify K s cptr \<and> cli_connect (clients s cptr) = con)"

text \<open>The state after a local client with status 32 (a server link) has been made in the
  start state, and the state after a remote user has then been introduced through it.\<close>

definition s_uplink :: state where
  "s_uplink = snd (projr (make_client K0 s0 0 32))"

definition s_remote :: state where
  "s_remote = snd (projr (make_client K0 s_uplink 1 (STAT_USER K0)))"

text \<open>The same state with the back pointer of the connection 1 cleared, and the state
  after the server link 1 has been freed while the remote user 2 is still there.\<close>

definition s_unowned :: state where
  "s_unowned = upd_conn 1 (\<lambda>c. c\<lparr>con_client := 0\<rparr>) s_remote"

definition s_uplink_freed :: state where
  "s_uplink_freed = projr (free_client K0 s_remote 1)"

text \<open>The local client of \<open>s_made\<close> with an open descriptor and both free flags set, and
  the state after this client has been freed.\<close>

definition s_lazy :: state where
  "s_lazy = upd_conn 1 (\<lambda>c. c\<lparr>con_fd := 5, con_freeflag := 3\<rparr>) s_made"

definition s_deferred :: state where
  "s_deferred = projr (free_client K0 s_lazy 1)"

text \<open>The events of tearing down a connection, as opposed to those of the whowas history
  and of freeing a \<^verbatim>\<open>User\<close> structure.\<close>

fun teardown_event :: "event \<Rightarrow> bool" where
  "teardown_event (AddHistory _) = False"
| "teardown_event (OffHistory _) = False"
| "teardown_event (FreeUser _) = False"
| "teardown_event _ = True"

text \<open>
  A server whose pool is primed makes its own client (status \<^verbatim>\<open>STAT_ME\<close>, record 3) and
  puts it on the global list; a local user (record 2, with a \<^verbatim>\<open>User\<close> structure at 5)
  connects and is put on the list, which is then 2, 3; the user is removed again.
\<close>

definition s_me :: state where
  "s_me = snd (projr (make_client K0 s_primed 0 (STAT_ME K0)))"

definition s_me_listed :: state where
  "s_me_listed = projr (add_client_to_list K0 s_me 3)"

definition s_user :: state where
  "s_user = upd_client 2 (\<lambda>c. c\<lparr>cli_user := 5\<rparr>)
              (snd (projr (make_client K0 s_me_listed 0 (STAT_USER K0))))"

definition s_listed :: state where
  "s_listed = projr (add_client_to_list K0 s_user 2)"

definition s_removed :: state where
  "s_removed = projr (remove_client_from_list K0 s_listed 2)"

text \<open>
  A global list of two users, 2 and 3, none of them the server itself, and the state after
  the last one, 3, has been removed; and the state after the only client of a list has
  been added to the list a second time.
\<close>

definition s_u1_listed :: state where
  "s_u1_listed =
     projr (add_client_to_list K0 (snd (projr (make_client K0 s_primed 0 (STAT_USER K0)))) 3)"

definition s_u2_listed :: state where
  "s_u2_listed =
     projr (add_client_to_list K0 (snd (projr (make_client K0 s_u1_listed 0 (STAT_USER K0)))) 2)"

definition s_tail_removed :: state where
  "s_tail_removed = projr (remove_client_from_list K0 s_u2_listed 3)"

definition s_readded :: state where
  "s_readded = projr (add_client_to_list K0 s_me_listed 3)"

text \<open>The variable 1 heads a list of two \<^verbatim>\<open>DLink\<close> nodes, 2 and 1.\<close>

definition s_two_links :: state where
  "s_two_links = snd (projr (add_dlink (snd (projr (add_dlink s0 1 10))) 1 11))"

section \<open>Properties\<close>

subsection \<open>Fresh memory and linked lists\<close>

lemma fold_max_start: "b \<le> fold max ys (b::nat)"
proof (induction ys arbitrary: b)
  case Nil
  show ?case by simp
next
  case (Cons z zs)
  have "b \<le> max z b" by simp
  also have "\<dots> \<le> fold max zs (max z b)" by (rule Cons.IH)
  finally show ?case by simp
qed

lemma fold_max_ge: "x \<in> set mem \<Longrightarrow> x \<le> fold max mem (a::nat)"
proof (induction mem arbitrary: a)
  case Nil
  then show ?case by simp
next
  case (Cons y ys)
  show ?case
  proof (cases "x = y")
    case True
    have "y \<le> max y a" by simp
    also have "\<dots> \<le> fold max ys (max y a)" by (rule fold_max_start)
    finally show ?thesis using True by simp
  next
    case False
    with Cons.prems have "x \<in> set ys" by simp
    then show ?thesis using Cons.IH by simp
  qed
qed

lemma MyMalloc_fresh: "MyMalloc mem \<notin> set mem"
proof
  assume "MyMalloc mem \<in> set mem"
  then have "MyMalloc mem \<le> fold max mem 0" by (rule fold_max_ge)
  then show False by (simp add: MyMalloc_def)
qed

lemma MyMalloc_nonnull: "MyMalloc mem \<noteq> 0"
  by (simp add: MyMalloc_def)

lemma linked_cong: "(\<And>x. x \<in> set xs \<Longrightarrow> f x = g x) \<Longrightarrow> linked f p xs = linked g p xs"
  by (induction xs arbitrary: p) auto

lemma linked_fun: "linked nxt p xs \<Longrightarrow> linked nxt p ys \<Longrightarrow> xs = ys"
  by (induction xs arbitrary: p ys) (case_tac ys; auto)+

lemma linked_suffix: "linked nxt p (as @ x # bs) \<Longrightarrow> linked nxt (nxt x) bs"
  by (induction as arbitrary: p) auto

lemma linked_notin_tail: "linked nxt (nxt x) xs \<Longrightarrow> x \<notin> set xs"
proof
  assume l: "linked nxt (nxt x) xs" and "x \<in> set xs"
  then obtain as bs where xs: "xs = as @ x # bs" by (auto simp: in_set_conv_decomp)
  with l have "linked nxt (nxt x) bs" by (auto dest: linked_suffix)
  with l have "xs = bs" by (rule linked_fun)
  with xs show False by simp
qed

lemma linked_distinct: "linked nxt p xs \<Longrightarrow> distinct xs"
  by (induction xs arbitrary: p) (auto dest: linked_notin_tail)

subsection \<open>Null arguments\<close>

text \<open>
  C9. \<^verbatim>\<open>free_client(NULL)\<close> and \<^verbatim>\<open>free_connection(NULL)\<close> return without changing the
  program state: the state after the call is the state before it, in every component.
\<close>

theorem null_argument_noop:
  "free_client K s 0 = Inr s \<and> free_connection K s 0 = Inr s"
  by (simp add: free_client_def free_connection_def)

theorem null_argument_noop_witness:
  "free_client K0 s0 0 = Inr s0 \<and> free_connection K0 s0 0 = Inr s0"
  using null_argument_noop [of K0 s0] by simp

subsection \<open>The functions of the pool, case by case\<close>

lemma alloc_client_empty:
  "clientFreeList s = 0 \<Longrightarrow>
   alloc_client s =
     (MyMalloc (client_mem s),
      s\<lparr>client_mem := MyMalloc (client_mem s) # client_mem s,
        clientAllocCount := clientAllocCount s + 1,
        clients := (clients s)(MyMalloc (client_mem s) := zero_Client)\<rparr>)"
  by (simp add: alloc_client_def upd_client_def Let_def)

lemma alloc_client_nonempty:
  "clientFreeList s \<noteq> 0 \<Longrightarrow>
   alloc_client s =
     (clientFreeList s,
      s\<lparr>clientFreeList := cli_next (clients s (clientFreeList s)),
        clients := (clients s)(clientFreeList s := zero_Client)\<rparr>)"
  by (simp add: alloc_client_def upd_client_def Let_def)

lemma alloc_connection_empty:
  "connectionFreeList s = 0 \<Longrightarrow>
   alloc_connection s =
     (MyMalloc (conn_mem s),
      s\<lparr>conn_mem := MyMalloc (conn_mem s) # conn_mem s,
        connectionAllocCount := connectionAllocCount s + 1,
        conns := (conns s)(MyMalloc (conn_mem s) := zero_Connection)\<rparr>)"
  by (simp add: alloc_connection_def upd_conn_def Let_def timer_init_def zero_Connection_def
      zero_Timer_def)

lemma alloc_connection_nonempty:
  "connectionFreeList s \<noteq> 0 \<Longrightarrow>
   alloc_connection s =
     (connectionFreeList s,
      s\<lparr>connectionFreeList := con_next (conns s (connectionFreeList s)),
        conns := (conns s)(connectionFreeList s := zero_Connection)\<rparr>)"
  by (simp add: alloc_connection_def upd_conn_def Let_def timer_init_def zero_Connection_def
      zero_Timer_def)

lemma dealloc_client_ok:
  "cptr \<noteq> 0 \<Longrightarrow> cli_magic (clients s cptr) = CLIENT_MAGIC K \<Longrightarrow>
   cli_connect (clients s cptr) = 0 \<Longrightarrow>
   dealloc_client K s cptr =
     Inr (s\<lparr>clients := (clients s)
               (cptr := (clients s cptr)\<lparr>cli_next := clientFreeList s, cli_magic := 0\<rparr>),
            clientFreeList := cptr\<rparr>)"
  by (simp add: dealloc_client_def upd_client_def cli_verify_def Let_def)

lemma dealloc_client_Inr:
  "dealloc_client K s cptr = Inr s' \<Longrightarrow>
     cptr \<noteq> 0 \<and> cli_magic (clients s cptr) = CLIENT_MAGIC K \<and>
     cli_connect (clients s cptr) = 0 \<and>
     s' = s\<lparr>clients := (clients s)
               (cptr := (clients s cptr)\<lparr>cli_next := clientFreeList s, cli_magic := 0\<rparr>),
            clientFreeList := cptr\<rparr>"
  by (auto simp add: dealloc_client_def upd_client_def cli_verify_def Let_def split: if_splits)

lemma log_event_fields:
  "events (log_event evs s) = events s @ evs"
  "conns (log_event evs s) = conns s"
  "clients (log_event evs s) = clients s"
  "servers (log_event evs s) = servers s"
  "connectionFreeList (log_event evs s) = connectionFreeList s"
  "clientFreeList (log_event evs s) = clientFreeList s"
  "GlobalClientList (log_event evs s) = GlobalClientList s"
  by (simp_all add: log_event_def)

lemma upd_conn_fields:
  "conns (upd_conn p f s) = (conns s)(p := f (conns s p))"
  "events (upd_conn p f s) = events s"
  "clients (upd_conn p f s) = clients s"
  "servers (upd_conn p f s) = servers s"
  "connectionFreeList (upd_conn p f s) = connectionFreeList s"
  "clientFreeList (upd_conn p f s) = clientFreeList s"
  "GlobalClientList (upd_conn p f s) = GlobalClientList s"
  by (simp_all add: upd_conn_def)

lemma dealloc_connection_pre:
  "dealloc_connection K s con = Inr s' \<Longrightarrow>
     con \<noteq> 0 \<and> con_magic (conns s con) = CONNECTION_MAGIC K \<and>
     \<not> t_active (con_proc (conns s con)) \<and> \<not> t_onqueue (con_proc (conns s con))"
  by (simp add: dealloc_connection_def con_verify_def split: if_splits)

lemma dealloc_connection_result:
  assumes "con \<noteq> 0" and "con_magic (conns s con) = CONNECTION_MAGIC K"
    and "\<not> t_active (con_proc (conns s con))" and "\<not> t_onqueue (con_proc (conns s con))"
  shows "dealloc_connection K s con =
     Inr (s\<lparr>conns := (conns s)
              (con := (conns s con)\<lparr>con_dns_reply := 0, con_sendQ := empty_MsgQ,
                     con_recvQ := [], con_next := connectionFreeList s, con_magic := 0\<rparr>),
            connectionFreeList := con,
            events := events s @
              (if con_dns_reply (conns s con) \<noteq> 0 then [MyFree (con_dns_reply (conns s con))]
               else []) @
              (if -1 < con_fd (conns s con) then [Close (con_fd (conns s con))] else []) @
              [MsgQClear con, ClientDropSendq con, DBufClear con] @
              (if con_listener (conns s con) \<noteq> 0
               then [ReleaseListener (con_listener (conns s con))] else [])\<rparr>)"
  using assms
  by (cases "conns s con")
    (auto simp add: dealloc_connection_def con_verify_def Let_def upd_conn_def log_event_def)

lemma dealloc_connection_Inr:
  assumes "dealloc_connection K s con = Inr s'"
  shows "con \<noteq> 0 \<and> con_magic (conns s con) = CONNECTION_MAGIC K \<and>
     \<not> t_active (con_proc (conns s con)) \<and> \<not> t_onqueue (con_proc (conns s con)) \<and>
     connectionFreeList s' = con \<and>
     conns s' = (conns s)
       (con := (conns s con)\<lparr>con_dns_reply := 0, con_sendQ := empty_MsgQ, con_recvQ := [],
                              con_next := connectionFreeList s, con_magic := 0\<rparr>) \<and>
     clients s' = clients s \<and> clientFreeList s' = clientFreeList s \<and>
     GlobalClientList s' = GlobalClientList s"
proof -
  note p = dealloc_connection_pre [OF assms]
  from p have "dealloc_connection K s con = Inr (s\<lparr>conns := (conns s)
              (con := (conns s con)\<lparr>con_dns_reply := 0, con_sendQ := empty_MsgQ,
                     con_recvQ := [], con_next := connectionFreeList s, con_magic := 0\<rparr>),
            connectionFreeList := con,
            events := events s @
              (if con_dns_reply (conns s con) \<noteq> 0 then [MyFree (con_dns_reply (conns s con))]
               else []) @
              (if -1 < con_fd (conns s con) then [Close (con_fd (conns s con))] else []) @
              [MsgQClear con, ClientDropSendq con, DBufClear con] @
              (if con_listener (conns s con) \<noteq> 0
               then [ReleaseListener (con_listener (conns s con))] else [])\<rparr>)"
    by (intro dealloc_connection_result) simp_all
  with assms p show ?thesis by auto
qed

lemma init_list_step_fields:
  "clientFreeList (init_list_step s) = MyMalloc (client_mem s)"
  "client_mem (init_list_step s) = MyMalloc (client_mem s) # client_mem s"
  "clients (init_list_step s) =
     (clients s)(MyMalloc (client_mem s) :=
        (clients s (MyMalloc (client_mem s)))\<lparr>cli_next := clientFreeList s\<rparr>)"
  "connectionFreeList (init_list_step s) = MyMalloc (conn_mem s)"
  "conn_mem (init_list_step s) = MyMalloc (conn_mem s) # conn_mem s"
  "conns (init_list_step s) =
     (conns s)(MyMalloc (conn_mem s) :=
        (conns s (MyMalloc (conn_mem s)))\<lparr>con_next := connectionFreeList s\<rparr>)"
  "slinkFreeList (init_list_step s) = slinkFreeList s"
  "slinks (init_list_step s) = slinks s"
  "slink_mem (init_list_step s) = slink_mem s"
  "slinkAllocCount (init_list_step s) = slinkAllocCount s"
  "clientAllocCount (init_list_step s) = clientAllocCount s + 1"
  "connectionAllocCount (init_list_step s) = connectionAllocCount s + 1"
  by (simp_all add: init_list_step_def upd_client_def upd_conn_def Let_def)

text \<open>The definitions that evaluate the pool on a concrete state.\<close>

lemmas pool_eval =
  init_list_def init_list_step_def alloc_client_def dealloc_client_def alloc_connection_def
  dealloc_connection_def upd_client_def upd_conn_def log_event_def cli_verify_def
  con_verify_def MyMalloc_def zero_Client_def zero_Connection_def zero_Timer_def
  timer_init_def client_free_list_def connection_free_list_def slink_free_list_def
  K0_def s0_def s_primed_def in_use_def Let_def numeral_3_eq_3

lemmas client_eval =
  make_client_def free_client_def cli_from_def cli_fd_def cli_freeflag_def cli_proc_def
  cli_auth_def TStime_def s_made_def s_freed_def

subsection \<open>Pool conservation\<close>

text \<open>
  C2 (as amended). Take a client record from the pool with \<^verbatim>\<open>alloc_client\<close>, let it be in
  use (its magic word set and no connection attached, whatever else it holds: the
  assertions of \<^verbatim>\<open>dealloc_client\<close> ask for this), and give it back with
  \<^verbatim>\<open>dealloc_client\<close>. The release succeeds. When the free list was not empty, it holds
  the same cells as before, in the same order. When the free list was empty, the record
  was freshly allocated and the free list has gained it: one cell more than before.
\<close>

theorem acquire_release_client:
  assumes fl: "client_free_list s xs"
    and al: "alloc_client s = (c, s1)"
    and r: "cli_magic r = CLIENT_MAGIC K" "cli_connect r = 0"
  shows "\<exists>s3 ys. dealloc_client K (upd_client c (\<lambda>_. r) s1) c = Inr s3 \<and>
           client_free_list s3 ys \<and>
           (if clientFreeList s = 0
            then mset ys = add_mset c (mset xs) \<and> c \<notin> set (client_mem s)
            else ys = xs)"
proof (cases "clientFreeList s = 0")
  case True
  with fl have xs: "xs = []" by (cases xs) (auto simp: client_free_list_def)
  from True al have c: "c = MyMalloc (client_mem s)"
    and s1: "s1 = s\<lparr>client_mem := c # client_mem s,
        clientAllocCount := clientAllocCount s + 1,
        clients := (clients s)(c := zero_Client)\<rparr>"
    by (auto simp add: alloc_client_empty)
  have c0: "c \<noteq> 0" by (simp add: c MyMalloc_nonnull)
  have fresh: "c \<notin> set (client_mem s)" by (simp add: c MyMalloc_fresh)
  let ?s2 = "upd_client c (\<lambda>_. r) s1"
  let ?s3 = "?s2\<lparr>clients := (clients ?s2)
                 (c := (clients ?s2 c)\<lparr>cli_next := clientFreeList ?s2, cli_magic := 0\<rparr>),
               clientFreeList := c\<rparr>"
  have d: "dealloc_client K ?s2 c = Inr ?s3"
    by (rule dealloc_client_ok) (simp_all add: c0 r upd_client_def)
  have "client_free_list ?s3 [c]"
    using c0 True by (simp add: client_free_list_def upd_client_def s1)
  with d fresh True xs show ?thesis by auto
next
  case False
  with al have c: "c = clientFreeList s"
    and s1: "s1 = s\<lparr>clientFreeList := cli_next (clients s c),
        clients := (clients s)(c := zero_Client)\<rparr>"
    by (auto simp add: alloc_client_nonempty)
  from False fl obtain zs where xs: "xs = c # zs" and c0: "c \<noteq> 0"
    and tl: "linked (\<lambda>p. cli_next (clients s p)) (cli_next (clients s c)) zs"
    by (cases xs) (auto simp: client_free_list_def c)
  from tl have notin: "c \<notin> set zs" by (rule linked_notin_tail)
  let ?s2 = "upd_client c (\<lambda>_. r) s1"
  let ?s3 = "?s2\<lparr>clients := (clients ?s2)
                 (c := (clients ?s2 c)\<lparr>cli_next := clientFreeList ?s2, cli_magic := 0\<rparr>),
               clientFreeList := c\<rparr>"
  have d: "dealloc_client K ?s2 c = Inr ?s3"
    by (rule dealloc_client_ok) (simp_all add: c0 r upd_client_def)
  have "linked (\<lambda>p. cli_next (clients ?s3 p)) (cli_next (clients s c)) zs
        = linked (\<lambda>p. cli_next (clients s p)) (cli_next (clients s c)) zs"
    by (rule linked_cong) (use notin in \<open>auto simp: upd_client_def s1\<close>)
  with tl have "client_free_list ?s3 (c # zs)"
    using c0 by (simp add: client_free_list_def upd_client_def s1)
  with d False xs show ?thesis by auto
qed

theorem acquire_release_client_witness:
  "client_free_list s_primed [3, 2, 1] \<and>
   alloc_client s_primed = (3, snd (alloc_client s_primed)) \<and>
   cli_magic in_use = CLIENT_MAGIC K0 \<and> cli_connect in_use = 0 \<and>
   (\<exists>s3. dealloc_client K0 (upd_client 3 (\<lambda>_. in_use) (snd (alloc_client s_primed))) 3 = Inr s3 \<and>
      client_free_list s3 [3, 2, 1])"
proof -
  have a: "client_free_list s_primed [3, 2, 1]" by (simp add: pool_eval)
  have b: "alloc_client s_primed = (3, snd (alloc_client s_primed))"
    by (simp add: pool_eval)
  have c: "cli_magic in_use = CLIENT_MAGIC K0" by (simp add: in_use_def)
  have d: "cli_connect in_use = 0" by (simp add: in_use_def zero_Client_def)
  have e: "clientFreeList s_primed \<noteq> 0" by (simp add: pool_eval)
  from acquire_release_client [OF a b c d] e a b c d show ?thesis by auto
qed

text \<open>
  C2 as stated fails on the empty pool: in the start state the free list is empty, the
  acquired record is the fresh cell 1, and after its release the free list is the cell 1.
\<close>

theorem acquire_release_on_empty_pool:
  "client_free_list s0 [] \<and>
   fst (alloc_client s0) = 1 \<and>
   \<not> isl (dealloc_client K0 (upd_client 1 (\<lambda>_. in_use) (snd (alloc_client s0))) 1) \<and>
   client_free_list
     (projr (dealloc_client K0 (upd_client 1 (\<lambda>_. in_use) (snd (alloc_client s0))) 1)) [1] \<and>
   mset [1::nat] \<noteq> mset []"
  by (simp add: pool_eval)

subsection \<open>Priming the pool\<close>

lemma init_list_step_client:
  assumes "client_free_list s xs" and "set xs \<subseteq> set (client_mem s)"
  shows "client_free_list (init_list_step s) (MyMalloc (client_mem s) # xs)"
proof -
  have "MyMalloc (client_mem s) \<notin> set xs" using assms(2) MyMalloc_fresh by blast
  then have "linked (\<lambda>p. cli_next (clients (init_list_step s) p)) (clientFreeList s) xs
      = linked (\<lambda>p. cli_next (clients s p)) (clientFreeList s) xs"
    by (intro linked_cong) (auto simp: init_list_step_fields)
  with assms(1) show ?thesis
    by (simp add: client_free_list_def init_list_step_fields MyMalloc_nonnull)
qed

lemma init_list_step_connection:
  assumes "connection_free_list s ys" and "set ys \<subseteq> set (conn_mem s)"
  shows "connection_free_list (init_list_step s) (MyMalloc (conn_mem s) # ys)"
proof -
  have "MyMalloc (conn_mem s) \<notin> set ys" using assms(2) MyMalloc_fresh by blast
  then have "linked (\<lambda>p. con_next (conns (init_list_step s) p)) (connectionFreeList s) ys
      = linked (\<lambda>p. con_next (conns s p)) (connectionFreeList s) ys"
    by (intro linked_cong) (auto simp: init_list_step_fields)
  with assms(1) show ?thesis
    by (simp add: connection_free_list_def init_list_step_fields MyMalloc_nonnull)
qed

lemma init_list_loop_client:
  "client_free_list s xs \<Longrightarrow> set xs \<subseteq> set (client_mem s) \<Longrightarrow>
   \<exists>xs'. client_free_list (init_list_loop n s) (xs' @ xs) \<and> length xs' = n"
proof (induction n arbitrary: s xs)
  case 0
  then show ?case by simp
next
  case (Suc n)
  let ?c = "MyMalloc (client_mem s)"
  have 1: "client_free_list (init_list_step s) (?c # xs)"
    using Suc.prems by (rule init_list_step_client)
  have 2: "set (?c # xs) \<subseteq> set (client_mem (init_list_step s))"
    using Suc.prems(2) by (auto simp: init_list_step_fields)
  from Suc.IH [OF 1 2] obtain zs
    where "client_free_list (init_list_loop n (init_list_step s)) (zs @ ?c # xs)"
      and "length zs = n"
    by blast
  then have "client_free_list (init_list_loop (Suc n) s) ((zs @ [?c]) @ xs) \<and>
      length (zs @ [?c]) = Suc n"
    by simp
  then show ?case by blast
qed

lemma init_list_loop_connection:
  "connection_free_list s ys \<Longrightarrow> set ys \<subseteq> set (conn_mem s) \<Longrightarrow>
   \<exists>ys'. connection_free_list (init_list_loop n s) (ys' @ ys) \<and> length ys' = n"
proof (induction n arbitrary: s ys)
  case 0
  then show ?case by simp
next
  case (Suc n)
  let ?c = "MyMalloc (conn_mem s)"
  have 1: "connection_free_list (init_list_step s) (?c # ys)"
    using Suc.prems by (rule init_list_step_connection)
  have 2: "set (?c # ys) \<subseteq> set (conn_mem (init_list_step s))"
    using Suc.prems(2) by (auto simp: init_list_step_fields)
  from Suc.IH [OF 1 2] obtain zs
    where "connection_free_list (init_list_loop n (init_list_step s)) (zs @ ?c # ys)"
      and "length zs = n"
    by blast
  then have "connection_free_list (init_list_loop (Suc n) s) ((zs @ [?c]) @ ys) \<and>
      length (zs @ [?c]) = Suc n"
    by simp
  then show ?case by blast
qed

lemma init_list_loop_slink:
  "slinkFreeList (init_list_loop n s) = slinkFreeList s \<and>
   slinks (init_list_loop n s) = slinks s \<and>
   slink_mem (init_list_loop n s) = slink_mem s \<and>
   slinkAllocCount (init_list_loop n s) = slinkAllocCount s"
  by (induction n arbitrary: s) (simp_all add: init_list_step_fields)

text \<open>
  C3 (as amended). \<^verbatim>\<open>init_list\<close> puts \<^verbatim>\<open>MAXCONNECTIONS\<close> new records in front of the client
  free list and \<^verbatim>\<open>MAXCONNECTIONS\<close> new records in front of the connection free list (the
  records already there, all of them allocated blocks, stay): at startup, when both lists
  are empty, each holds exactly \<^verbatim>\<open>MAXCONNECTIONS\<close> records afterwards. The link free list,
  the link memory and \<^verbatim>\<open>slinkAllocCount\<close> are left as they were: no link is pre-allocated.
\<close>

theorem init_list_primes:
  assumes "client_free_list s xs" and "set xs \<subseteq> set (client_mem s)"
    and "connection_free_list s ys" and "set ys \<subseteq> set (conn_mem s)"
  shows "\<exists>xs' ys'.
           client_free_list (init_list K s) (xs' @ xs) \<and> length xs' = nat (MAXCONNECTIONS K) \<and>
           connection_free_list (init_list K s) (ys' @ ys) \<and>
           length ys' = nat (MAXCONNECTIONS K) \<and>
           slinkFreeList (init_list K s) = slinkFreeList s \<and>
           slinks (init_list K s) = slinks s \<and>
           slinkAllocCount (init_list K s) = slinkAllocCount s"
  using init_list_loop_client [OF assms(1,2), of "nat (MAXCONNECTIONS K)"]
    init_list_loop_connection [OF assms(3,4), of "nat (MAXCONNECTIONS K)"]
    init_list_loop_slink [of "nat (MAXCONNECTIONS K)" s]
  unfolding init_list_def by blast

theorem init_list_primes_witness:
  "client_free_list s0 [] \<and> connection_free_list s0 [] \<and>
   (\<exists>xs' ys'.
      client_free_list (init_list K0 s0) (xs' @ []) \<and> length xs' = 3 \<and>
      connection_free_list (init_list K0 s0) (ys' @ []) \<and> length ys' = 3 \<and>
      slinkFreeList (init_list K0 s0) = 0)"
proof -
  have c: "client_free_list s0 []" by (simp add: client_free_list_def s0_def)
  have d: "connection_free_list s0 []" by (simp add: connection_free_list_def s0_def)
  have k: "nat (MAXCONNECTIONS K0) = 3" by (simp add: K0_def)
  have z: "slinkFreeList s0 = 0" by (simp add: s0_def)
  from init_list_primes [OF c _ d, of K0] c d show ?thesis unfolding k z by auto
qed

text \<open>
  C3 as stated fails for links: with \<^verbatim>\<open>MAXCONNECTIONS\<close> 3, after \<^verbatim>\<open>init_list\<close> on the start
  state the client free list holds the three cells 3, 2, 1, and the link free list holds
  none.
\<close>

theorem link_list_not_primed:
  "MAXCONNECTIONS K0 = 3 \<and> client_free_list (init_list K0 s0) [3, 2, 1] \<and>
   slink_free_list (init_list K0 s0) [] \<and> slinkAllocCount (init_list K0 s0) = 0"
  by (simp add: pool_eval)

subsection \<open>What a free list holds\<close>

text \<open>
  C4 (as amended). A release clears the magic word and sets the list link; the release of
  a connection also clears its DNS reply pointer and empties its send queue and its
  receive buffer. The record is not zeroed: the head of the client free list after
  \<^verbatim>\<open>dealloc_client\<close>, and of the connection free list after \<^verbatim>\<open>dealloc_connection\<close>, is
  the released record with these fields changed and every other field that list.c reads
  or writes as it was. Zeroing is done by the acquire: \<^verbatim>\<open>alloc_client\<close> and \<^verbatim>\<open>alloc_connection\<close> return a record
  that is not \<^verbatim>\<open>NULL\<close>, is the head of the free list or, when the list is empty, a block
  not handed out before, and is all zero. Links have no magic word and are never zeroed:
  \<^verbatim>\<open>free_link\<close> only sets the list link and \<^verbatim>\<open>make_link\<close> returns the head of its free
  list, or a new block, with the link memory unchanged.
\<close>

theorem pool_poisoning:
  "(dealloc_client K sc c = Inr sc' \<longrightarrow>
      clientFreeList sc' = c \<and>
      clients sc' c = (clients sc c)\<lparr>cli_next := clientFreeList sc, cli_magic := 0\<rparr>) \<and>
   (dealloc_connection K sn n = Inr sn' \<longrightarrow>
      connectionFreeList sn' = n \<and>
      conns sn' n = (conns sn n)\<lparr>con_dns_reply := 0, con_sendQ := empty_MsgQ,
                                  con_recvQ := [], con_next := connectionFreeList sn,
                                  con_magic := 0\<rparr>) \<and>
   (alloc_client sa = (a, sa') \<longrightarrow>
      a \<noteq> 0 \<and> clients sa' a = zero_Client \<and>
      (if clientFreeList sa = 0 then a \<notin> set (client_mem sa) else a = clientFreeList sa)) \<and>
   (alloc_connection sb = (b, sb') \<longrightarrow>
      b \<noteq> 0 \<and> conns sb' b = zero_Connection \<and>
      (if connectionFreeList sb = 0 then b \<notin> set (conn_mem sb) else b = connectionFreeList sb)) \<and>
   (make_link sl = (l, sl') \<longrightarrow>
      l \<noteq> 0 \<and> slinks sl' = slinks sl \<and>
      (if slinkFreeList sl = 0 then l \<notin> set (slink_mem sl) else l = slinkFreeList sl)) \<and>
   (lp \<noteq> 0 \<longrightarrow>
      slinkFreeList (free_link sf lp) = lp \<and>
      slinks (free_link sf lp) lp = (slinks sf lp)\<lparr>sl_next := slinkFreeList sf\<rparr>)"
proof (intro conjI impI)
  assume "dealloc_client K sc c = Inr sc'"
  from dealloc_client_Inr [OF this]
  show "clientFreeList sc' = c"
    and "clients sc' c = (clients sc c)\<lparr>cli_next := clientFreeList sc, cli_magic := 0\<rparr>"
    by simp_all
next
  assume "dealloc_connection K sn n = Inr sn'"
  from dealloc_connection_Inr [OF this]
  show "connectionFreeList sn' = n"
    and "conns sn' n = (conns sn n)\<lparr>con_dns_reply := 0, con_sendQ := empty_MsgQ,
                                       con_recvQ := [], con_next := connectionFreeList sn,
                                       con_magic := 0\<rparr>"
    by simp_all
next
  assume a: "alloc_client sa = (a, sa')"
  show "a \<noteq> 0" using a MyMalloc_nonnull [of "client_mem sa"]
    by (cases "clientFreeList sa = 0") (auto simp: alloc_client_empty alloc_client_nonempty)
  show "clients sa' a = zero_Client" using a
    by (cases "clientFreeList sa = 0") (auto simp: alloc_client_empty alloc_client_nonempty)
  show "if clientFreeList sa = 0 then a \<notin> set (client_mem sa) else a = clientFreeList sa"
    using a MyMalloc_fresh [of "client_mem sa"]
    by (cases "clientFreeList sa = 0") (auto simp: alloc_client_empty alloc_client_nonempty)
next
  assume a: "alloc_connection sb = (b, sb')"
  show "b \<noteq> 0" using a MyMalloc_nonnull [of "conn_mem sb"]
    by (cases "connectionFreeList sb = 0")
      (auto simp: alloc_connection_empty alloc_connection_nonempty)
  show "conns sb' b = zero_Connection" using a
    by (cases "connectionFreeList sb = 0")
      (auto simp: alloc_connection_empty alloc_connection_nonempty)
  show "if connectionFreeList sb = 0 then b \<notin> set (conn_mem sb) else b = connectionFreeList sb"
    using a MyMalloc_fresh [of "conn_mem sb"]
    by (cases "connectionFreeList sb = 0")
      (auto simp: alloc_connection_empty alloc_connection_nonempty)
next
  assume a: "make_link sl = (l, sl')"
  show "l \<noteq> 0" using a MyMalloc_nonnull [of "slink_mem sl"]
    by (auto simp: make_link_def Let_def split: if_splits)
  show "slinks sl' = slinks sl" using a
    by (auto simp: make_link_def Let_def split: if_splits)
  show "if slinkFreeList sl = 0 then l \<notin> set (slink_mem sl) else l = slinkFreeList sl"
    using a MyMalloc_fresh [of "slink_mem sl"]
    by (auto simp: make_link_def Let_def split: if_splits)
next
  assume "lp \<noteq> 0"
  then show "slinkFreeList (free_link sf lp) = lp"
    and "slinks (free_link sf lp) lp = (slinks sf lp)\<lparr>sl_next := slinkFreeList sf\<rparr>"
    by (simp_all add: free_link_def Let_def)
qed

lemmas poison_eval = pool_eval s_in_use_def s_conn_in_use_def make_link_def free_link_def

theorem pool_poisoning_witness:
  "dealloc_client K0 s_in_use 1 = Inr (projr (dealloc_client K0 s_in_use 1)) \<and>
   dealloc_connection K0 s_conn_in_use 1 = Inr (projr (dealloc_connection K0 s_conn_in_use 1)) \<and>
   alloc_client s_primed = (3, snd (alloc_client s_primed)) \<and>
   alloc_connection s0 = (1, snd (alloc_connection s0)) \<and>
   make_link s0 = (1, snd (make_link s0)) \<and>
   clientFreeList (projr (dealloc_client K0 s_in_use 1)) = 1 \<and>
   cli_magic (clients (projr (dealloc_client K0 s_in_use 1)) 1) = 0 \<and>
   connectionFreeList (projr (dealloc_connection K0 s_conn_in_use 1)) = 1 \<and>
   con_fd (conns (projr (dealloc_connection K0 s_conn_in_use 1)) 1) = 5 \<and>
   con_sendQ (conns s_conn_in_use 1) \<noteq> empty_MsgQ \<and>
   con_recvQ (conns s_conn_in_use 1) \<noteq> [] \<and>
   con_sendQ (conns (projr (dealloc_connection K0 s_conn_in_use 1)) 1) = empty_MsgQ \<and>
   con_recvQ (conns (projr (dealloc_connection K0 s_conn_in_use 1)) 1) = [] \<and>
   clients (snd (alloc_client s_primed)) 3 = zero_Client \<and>
   conns (snd (alloc_connection s0)) 1 = zero_Connection \<and>
   slinks (snd (make_link s0)) = slinks s0 \<and>
   slinkFreeList (free_link s0 1) = 1"
proof -
  have 1: "dealloc_client K0 s_in_use 1 = Inr (projr (dealloc_client K0 s_in_use 1))"
    by (simp add: poison_eval)
  have 2: "dealloc_connection K0 s_conn_in_use 1 = Inr (projr (dealloc_connection K0 s_conn_in_use 1))"
    by (simp add: poison_eval)
  have 3: "alloc_client s_primed = (3, snd (alloc_client s_primed))"
    by (simp add: poison_eval)
  have 4: "alloc_connection s0 = (1, snd (alloc_connection s0))"
    by (simp add: poison_eval)
  have 5: "make_link s0 = (1, snd (make_link s0))"
    by (simp add: poison_eval)
  have 6: "(1::nat) \<noteq> 0" by simp
  have f: "con_fd (conns s_conn_in_use 1) = 5" "cli_magic (clients s_in_use 1) = 7"
    "con_sendQ (conns s_conn_in_use 1) \<noteq> empty_MsgQ" "con_recvQ (conns s_conn_in_use 1) \<noteq> []"
    by (simp_all add: poison_eval empty_MsgQ_def)
  from pool_poisoning [of K0 s_in_use 1 "projr (dealloc_client K0 s_in_use 1)"
      s_conn_in_use 1 "projr (dealloc_connection K0 s_conn_in_use 1)"
      s_primed 3 "snd (alloc_client s_primed)" s0 1 "snd (alloc_connection s0)"
      s0 1 "snd (make_link s0)" 1 s0] 1 2 3 4 5 6 f
  show ?thesis by simp
qed

text \<open>
  C4 as stated fails: make a local client in the start state and free it again. The client
  record 1 and the connection record 1 are then on their free lists, and they still hold
  the status 64, the user name, the descriptor -1: they are not zeroed. A link that held
  the client 9 when it was freed is handed out again by \<^verbatim>\<open>make_link\<close> still holding it.
\<close>

theorem released_records_not_zeroed:
  "make_client K0 s0 0 (STAT_USER K0) = Inr (1, s_made) \<and>
   free_client K0 s_made 1 = Inr s_freed \<and>
   client_free_list s_freed [1] \<and>
   cli_status (clients s_freed 1) = 64 \<and>
   cli_username (clients s_freed 1) = ''unknown'' \<and>
   clients s_freed 1 \<noteq> zero_Client \<and>
   connection_free_list s_freed [1] \<and>
   con_fd (conns s_freed 1) = -1 \<and>
   conns s_freed 1 \<noteq> zero_Connection \<and>
   slink_free_list (free_link s_link_used 1) [1] \<and>
   fst (make_link (free_link s_link_used 1)) = 1 \<and>
   sl_cptr (slinks (snd (make_link (free_link s_link_used 1))) 1) = 9"
  by (simp add: pool_eval client_eval make_link_def free_link_def s_link_used_def)

subsection \<open>make\_client and the ownership of connections\<close>

lemma alloc_client_frame:
  assumes "alloc_client s = (c, s1)"
  shows "c \<noteq> 0" and "clients s1 = (clients s)(c := zero_Client)" and "conns s1 = conns s"
    and "connectionFreeList s1 = connectionFreeList s" and "conn_mem s1 = conn_mem s"
    and "CurrentTime s1 = CurrentTime s" and "TSoffset s1 = TSoffset s"
    and "GlobalClientList s1 = GlobalClientList s" and "events s1 = events s"
  using assms MyMalloc_nonnull [of "client_mem s"]
  by (cases "clientFreeList s = 0"; auto simp: alloc_client_empty alloc_client_nonempty)+

lemma alloc_connection_frame:
  assumes "alloc_connection s = (n, s1)"
  shows "n \<noteq> 0" and "conns s1 = (conns s)(n := zero_Connection)" and "clients s1 = clients s"
    and "if connectionFreeList s = 0 then n \<notin> set (conn_mem s) else n = connectionFreeList s"
    and "CurrentTime s1 = CurrentTime s" and "TSoffset s1 = TSoffset s"
    and "GlobalClientList s1 = GlobalClientList s" and "events s1 = events s"
    and "clientFreeList s1 = clientFreeList s"
  using assms MyMalloc_nonnull [of "conn_mem s"] MyMalloc_fresh [of "conn_mem s"]
  by (cases "connectionFreeList s = 0"; auto simp: alloc_connection_empty alloc_connection_nonempty)+

lemma make_client_local:
  assumes "make_client K s 0 status = Inr (c, s')"
  obtains s1 n s2 where "alloc_client s = (c, s1)" and "alloc_connection s1 = (n, s2)"
    and "clients s' = (clients s2)(c := zero_Client\<lparr>cli_connect := n, cli_firsttime := CurrentTime s,
           cli_lastnick := TStime s, cli_magic := CLIENT_MAGIC K, cli_status := status,
           cli_hnext := c, cli_username := ''unknown''\<rparr>)"
    and "conns s' = (conns s2)(n := zero_Connection\<lparr>con_magic := CONNECTION_MAGIC K, con_fd := -1,
           con_nextnick := CurrentTime s - NICK_DELAY K,
           con_nexttarget := CurrentTime s - (TARGET_DELAY K * (STARTTARGETS K - 1)),
           con_handler := UNREGISTERED_HANDLER K, con_client := c,
           con_lasttime := CurrentTime s, con_since := CurrentTime s, con_unreg := CLIREG_INIT K\<rparr>)"
proof -
  obtain s1 where a: "alloc_client s = (c, s1)"
    using assms by (auto simp: make_client_def Let_def split: prod.splits if_splits sum.splits)
  obtain n s2 where b: "alloc_connection s1 = (n, s2)" by (cases "alloc_connection s1")
  note fa = alloc_client_frame [OF a]
  note fb = alloc_connection_frame [OF b]
  from assms a b fa(1) fb(1)
  have "clients s' = (clients s2)(c := zero_Client\<lparr>cli_connect := n, cli_firsttime := CurrentTime s,
           cli_lastnick := TStime s, cli_magic := CLIENT_MAGIC K, cli_status := status,
           cli_hnext := c, cli_username := ''unknown''\<rparr>)"
    by (auto simp: make_client_def Let_def upd_client_def upd_conn_def con_verify_def TStime_def fa fb
        zero_Client_def
        split: if_splits)
  moreover
  from assms a b fa(1) fb(1)
  have "conns s' = (conns s2)(n := zero_Connection\<lparr>con_magic := CONNECTION_MAGIC K, con_fd := -1,
           con_nextnick := CurrentTime s - NICK_DELAY K,
           con_nexttarget := CurrentTime s - (TARGET_DELAY K * (STARTTARGETS K - 1)),
           con_handler := UNREGISTERED_HANDLER K, con_client := c,
           con_lasttime := CurrentTime s, con_since := CurrentTime s, con_unreg := CLIREG_INIT K\<rparr>)"
    by (auto simp: make_client_def Let_def upd_client_def upd_conn_def con_verify_def TStime_def fa fb
        zero_Connection_def
        split: if_splits)
  ultimately show ?thesis using that a b by blast
qed

lemma make_client_remote:
  assumes "make_client K s from status = Inr (c, s')" and "from \<noteq> 0"
  obtains s1 where "alloc_client s = (c, s1)" and "c \<noteq> from"
    and "cli_magic (clients s from) = CLIENT_MAGIC K" and "cli_connect (clients s from) \<noteq> 0"
    and "s' = s1\<lparr>clients := (clients s1)(c := zero_Client\<lparr>cli_connect := cli_connect (clients s from),
           cli_magic := CLIENT_MAGIC K, cli_status := status,
           cli_hnext := c, cli_username := ''unknown''\<rparr>)\<rparr>"
proof -
  obtain s1 where a: "alloc_client s = (c, s1)"
    using assms by (auto simp: make_client_def Let_def split: prod.splits if_splits sum.splits)
  note fa = alloc_client_frame [OF a]
  from assms a have v: "cli_magic (clients s from) = CLIENT_MAGIC K"
    by (auto simp: make_client_def cli_verify_def split: if_splits)
  from assms a have nz: "cli_connect (clients s1 from) \<noteq> 0"
    by (auto simp: make_client_def Let_def split: if_splits)
  then have ne: "c \<noteq> from" by (auto simp: fa zero_Client_def)
  with nz have nz': "cli_connect (clients s from) \<noteq> 0" by (simp add: fa)
  from assms a ne fa(1)
  have "s' = s1\<lparr>clients := (clients s1)(c := zero_Client\<lparr>cli_connect := cli_connect (clients s from),
           cli_magic := CLIENT_MAGIC K, cli_status := status,
           cli_hnext := c, cli_username := ''unknown''\<rparr>)\<rparr>"
    by (auto simp: make_client_def Let_def upd_client_def con_verify_def fa zero_Client_def
        split: if_splits)
  with that a ne v nz' show ?thesis by blast
qed

text \<open>
  C1 (as amended). A client returned by \<^verbatim>\<open>make_client\<close> is in use, has the status it was
  called with (whatever that is), and no other client record has changed. With \<^verbatim>\<open>from\<close>
  \<^verbatim>\<open>NULL\<close> it has a connection of its own: a verified connection record, the head of the
  connection free list or a new block, whose \<^verbatim>\<open>con_client\<close> points back to the client;
  and if no other client in use referred to that record before, the new client is the
  only client that refers to it. With \<^verbatim>\<open>from\<close> not \<^verbatim>\<open>NULL\<close> no connection is made or
  taken from the pool: the new client is another client than \<^verbatim>\<open>from\<close>, and both refer to
  the connection of \<^verbatim>\<open>from\<close>.
\<close>

theorem make_client_connection:
  assumes mk: "make_client K s from status = Inr (c, s')"
  shows "c \<noteq> 0 \<and> cli_verify K s' c \<and> cli_status (clients s' c) = status \<and>
     (\<forall>p. p \<noteq> c \<longrightarrow> clients s' p = clients s p) \<and>
     (if from = 0
      then cli_connect (clients s' c) \<noteq> 0 \<and>
           con_verify K s' (cli_connect (clients s' c)) \<and>
           con_client (conns s' (cli_connect (clients s' c))) = c \<and>
           (if connectionFreeList s = 0
            then cli_connect (clients s' c) \<notin> set (conn_mem s)
            else cli_connect (clients s' c) = connectionFreeList s) \<and>
           ((\<forall>p. p \<noteq> c \<longrightarrow> \<not> refers K s p (cli_connect (clients s' c))) \<longrightarrow>
            (\<forall>p. refers K s' p (cli_connect (clients s' c)) = (p = c)))
      else c \<noteq> from \<and> conns s' = conns s \<and>
           connectionFreeList s' = connectionFreeList s \<and> conn_mem s' = conn_mem s \<and>
           refers K s' from (cli_connect (clients s from)) \<and>
           refers K s' c (cli_connect (clients s from)))"
proof (cases "from = 0")
  case True
  from mk True obtain s1 n s2 where a: "alloc_client s = (c, s1)"
    and b: "alloc_connection s1 = (n, s2)"
    and cl: "clients s' = (clients s2)(c := zero_Client\<lparr>cli_connect := n,
           cli_firsttime := CurrentTime s,
           cli_lastnick := TStime s, cli_magic := CLIENT_MAGIC K, cli_status := status,
           cli_hnext := c, cli_username := ''unknown''\<rparr>)"
    and cn: "conns s' = (conns s2)(n := zero_Connection\<lparr>con_magic := CONNECTION_MAGIC K,
           con_fd := -1, con_nextnick := CurrentTime s - NICK_DELAY K,
           con_nexttarget := CurrentTime s - (TARGET_DELAY K * (STARTTARGETS K - 1)),
           con_handler := UNREGISTERED_HANDLER K, con_client := c,
           con_lasttime := CurrentTime s, con_since := CurrentTime s,
           con_unreg := CLIREG_INIT K\<rparr>)"
    by (auto elim: make_client_local)
  note fa = alloc_client_frame [OF a]
  note fb = alloc_connection_frame [OF b]
  have con: "cli_connect (clients s' c) = n" by (simp add: cl)
  have others: "\<forall>p. p \<noteq> c \<longrightarrow> clients s' p = clients s p" by (simp add: cl fa fb)
  have "(\<forall>p. p \<noteq> c \<longrightarrow> \<not> refers K s p n) \<longrightarrow> (\<forall>p. refers K s' p n = (p = c))"
    using others by (auto simp: refers_def cli_verify_def cl)
  moreover have "if connectionFreeList s = 0 then n \<notin> set (conn_mem s) else n = connectionFreeList s"
    using fb(4) by (auto simp: fa split: if_splits)
  ultimately show ?thesis using True fa(1) fb(1) others
    by (simp add: con cli_verify_def con_verify_def) (simp add: cl cn)
next
  case False
  from mk False obtain s1 where a: "alloc_client s = (c, s1)" and ne: "c \<noteq> from"
    and v: "cli_magic (clients s from) = CLIENT_MAGIC K"
    and s': "s' = s1\<lparr>clients := (clients s1)(c := zero_Client\<lparr>
           cli_connect := cli_connect (clients s from),
           cli_magic := CLIENT_MAGIC K, cli_status := status,
           cli_hnext := c, cli_username := ''unknown''\<rparr>)\<rparr>"
    by (auto elim: make_client_remote)
  note fa = alloc_client_frame [OF a]
  show ?thesis using False ne v fa
    by (simp add: s' refers_def cli_verify_def)
qed

lemmas owner_eval = pool_eval client_eval s_uplink_def s_remote_def refers_def

theorem make_client_connection_witness:
  "make_client K0 s0 0 32 = Inr (1, s_uplink) \<and>
   make_client K0 s_uplink 1 (STAT_USER K0) = Inr (2, s_remote) \<and>
   \<not> (\<exists>p. p \<noteq> 1 \<and> refers K0 s0 p 1) \<and>
   cli_connect (clients s_uplink 1) = 1 \<and> con_client (conns s_uplink 1) = 1 \<and>
   (\<forall>p. refers K0 s_uplink p 1 = (p = 1)) \<and>
   cli_status (clients s_remote 2) = 64 \<and>
   conns s_remote = conns s_uplink \<and> refers K0 s_remote 2 1"
proof -
  have 1: "make_client K0 s0 0 32 = Inr (1, s_uplink)" by (simp add: owner_eval)
  have 2: "make_client K0 s_uplink 1 (STAT_USER K0) = Inr (2, s_remote)" by (simp add: owner_eval)
  have 3: "\<forall>p. p \<noteq> 1 \<longrightarrow> \<not> refers K0 s0 p 1" by (simp add: owner_eval)
  have 4: "cli_connect (clients s_uplink 1) = 1" by (simp add: owner_eval)
  have 5: "STAT_USER K0 = 64" by (simp add: K0_def)
  have 6: "\<not> (\<exists>p. p \<noteq> 1 \<and> refers K0 s0 p 1)" using 3 by blast
  from make_client_connection [OF 1] make_client_connection [OF 2] 1 2 3 4 5
  have "cli_connect (clients s_uplink 1) = 1 \<and> con_client (conns s_uplink 1) = 1 \<and>
   (\<forall>p. refers K0 s_uplink p 1 = (p = 1)) \<and>
   cli_status (clients s_remote 2) = 64 \<and>
   conns s_remote = conns s_uplink \<and> refers K0 s_remote 2 1"
    by simp
  with 1 2 6 show ?thesis by blast
qed

text \<open>
  C1 as stated fails for a remote client: after a local client 1 (with connection 1) has
  been made, \<^verbatim>\<open>make_client(1, STAT_USER)\<close> returns the client 2, and the clients 1 and 2
  are both in use and both have the connection 1 as their \<^verbatim>\<open>cli_connect\<close>.
\<close>

theorem remote_client_shares_connection:
  "make_client K0 s0 0 32 = Inr (1, s_uplink) \<and>
   make_client K0 s_uplink 1 (STAT_USER K0) = Inr (2, s_remote) \<and>
   cli_verify K0 s_remote 1 \<and> cli_connect (clients s_remote 1) = 1 \<and>
   cli_verify K0 s_remote 2 \<and> cli_connect (clients s_remote 2) = 1 \<and>
   con_client (conns s_remote 1) = 1 \<and>
   cli_status (clients s_remote 2) = STAT_USER K0"
  by (simp add: owner_eval)

subsection \<open>The assertions of a release\<close>

lemma dealloc_connection_ok:
  "con \<noteq> 0 \<Longrightarrow> con_magic (conns s con) = CONNECTION_MAGIC K \<Longrightarrow>
   \<not> t_active (con_proc (conns s con)) \<Longrightarrow> \<not> t_onqueue (con_proc (conns s con)) \<Longrightarrow>
   \<exists>s'. dealloc_connection K s con = Inr s'"
  by (simp add: dealloc_connection_def con_verify_def Let_def)

text \<open>
  C5 (as amended). For a connection and a client that are not \<^verbatim>\<open>NULL\<close>:
  \<^verbatim>\<open>free_connection\<close> succeeds exactly when the magic word of the connection verifies, its
  back pointer \<^verbatim>\<open>con_client\<close> is \<^verbatim>\<open>NULL\<close>, and its processing timer is neither active nor
  on the timer queue; \<^verbatim>\<open>dealloc_connection\<close> succeeds exactly when the magic word
  verifies and the timer is neither active nor on the queue; \<^verbatim>\<open>dealloc_client\<close> succeeds
  exactly when the magic word of the client verifies and the client has no connection.
  In every other case the call ends in a failed assertion: a caller that meets these
  obligations never reaches the failing branch. Nothing else is asserted: whether a
  client still has the connection as its \<^verbatim>\<open>cli_connect\<close> plays no part in the release of
  a connection.
\<close>

theorem release_assertions:
  assumes "con \<noteq> 0" and "cptr \<noteq> 0"
  shows
   "(\<exists>s'. free_connection K s con = Inr s') =
      (con_magic (conns s con) = CONNECTION_MAGIC K \<and> con_client (conns s con) = 0 \<and>
       \<not> t_active (con_proc (conns s con)) \<and> \<not> t_onqueue (con_proc (conns s con))) \<and>
    (free_connection K s con = Inl AssertFailed) =
      (\<not> (con_magic (conns s con) = CONNECTION_MAGIC K \<and> con_client (conns s con) = 0 \<and>
       \<not> t_active (con_proc (conns s con)) \<and> \<not> t_onqueue (con_proc (conns s con)))) \<and>
    (\<exists>s'. dealloc_connection K s con = Inr s') =
      (con_magic (conns s con) = CONNECTION_MAGIC K \<and>
       \<not> t_active (con_proc (conns s con)) \<and> \<not> t_onqueue (con_proc (conns s con))) \<and>
    (dealloc_connection K s con = Inl AssertFailed) =
      (\<not> (con_magic (conns s con) = CONNECTION_MAGIC K \<and>
       \<not> t_active (con_proc (conns s con)) \<and> \<not> t_onqueue (con_proc (conns s con)))) \<and>
    (\<exists>s'. dealloc_client K s cptr = Inr s') =
      (cli_magic (clients s cptr) = CLIENT_MAGIC K \<and> cli_connect (clients s cptr) = 0) \<and>
    (dealloc_client K s cptr = Inl AssertFailed) =
      (\<not> (cli_magic (clients s cptr) = CLIENT_MAGIC K \<and> cli_connect (clients s cptr) = 0))"
proof -
  have dc: "(\<exists>s'. dealloc_connection K s con = Inr s') =
      (con_magic (conns s con) = CONNECTION_MAGIC K \<and>
       \<not> t_active (con_proc (conns s con)) \<and> \<not> t_onqueue (con_proc (conns s con)))"
    using assms(1) dealloc_connection_ok [of con s K] by (auto dest: dealloc_connection_Inr)
  have dcf: "(dealloc_connection K s con = Inl AssertFailed) =
      (\<not> (con_magic (conns s con) = CONNECTION_MAGIC K \<and>
       \<not> t_active (con_proc (conns s con)) \<and> \<not> t_onqueue (con_proc (conns s con))))"
    using assms(1) by (auto simp: dealloc_connection_def con_verify_def Let_def)
  have fc: "(\<exists>s'. free_connection K s con = Inr s') =
      (con_magic (conns s con) = CONNECTION_MAGIC K \<and> con_client (conns s con) = 0 \<and>
       \<not> t_active (con_proc (conns s con)) \<and> \<not> t_onqueue (con_proc (conns s con)))"
    using assms(1) dc by (auto simp: free_connection_def con_verify_def)
  have fcf: "(free_connection K s con = Inl AssertFailed) =
      (\<not> (con_magic (conns s con) = CONNECTION_MAGIC K \<and> con_client (conns s con) = 0 \<and>
       \<not> t_active (con_proc (conns s con)) \<and> \<not> t_onqueue (con_proc (conns s con))))"
    using assms(1) dcf by (auto simp: free_connection_def con_verify_def)
  have cl: "(\<exists>s'. dealloc_client K s cptr = Inr s') =
      (cli_magic (clients s cptr) = CLIENT_MAGIC K \<and> cli_connect (clients s cptr) = 0)"
    using assms(2) by (auto simp: dealloc_client_ok dest: dealloc_client_Inr)
  have clf: "(dealloc_client K s cptr = Inl AssertFailed) =
      (\<not> (cli_magic (clients s cptr) = CLIENT_MAGIC K \<and> cli_connect (clients s cptr) = 0))"
    using assms(2) by (auto simp: dealloc_client_def cli_verify_def Let_def)
  from dc dcf fc fcf cl clf show ?thesis by blast
qed

lemmas assert_eval = pool_eval client_eval free_connection_def

theorem release_assertions_witness:
  "(1::nat) \<noteq> 0 \<and>
   free_connection K0 s_made 1 = Inl AssertFailed \<and> con_client (conns s_made 1) = 1 \<and>
   \<not> isl (dealloc_connection K0 s_made 1) \<and>
   dealloc_client K0 s_made 1 = Inl AssertFailed \<and> cli_connect (clients s_made 1) = 1 \<and>
   \<not> isl (free_connection K0 s_conn_in_use 1) \<and>
   \<not> isl (dealloc_client K0 s_in_use 1)"
proof -
  have n: "(1::nat) \<noteq> 0" by simp
  have a: "con_magic (conns s_made 1) = CONNECTION_MAGIC K0" "con_client (conns s_made 1) = 1"
    "\<not> t_active (con_proc (conns s_made 1))" "\<not> t_onqueue (con_proc (conns s_made 1))"
    "cli_magic (clients s_made 1) = CLIENT_MAGIC K0" "cli_connect (clients s_made 1) = 1"
    by (simp_all add: assert_eval)
  have b: "con_magic (conns s_conn_in_use 1) = CONNECTION_MAGIC K0"
    "con_client (conns s_conn_in_use 1) = 0"
    "\<not> t_active (con_proc (conns s_conn_in_use 1))"
    "\<not> t_onqueue (con_proc (conns s_conn_in_use 1))"
    "cli_magic (clients s_in_use 1) = CLIENT_MAGIC K0" "cli_connect (clients s_in_use 1) = 0"
    by (simp_all add: assert_eval s_conn_in_use_def s_in_use_def)
  from release_assertions [OF n n, of K0 s_made] a
  have 1: "free_connection K0 s_made 1 = Inl AssertFailed"
    "\<exists>s'. dealloc_connection K0 s_made 1 = Inr s'"
    "dealloc_client K0 s_made 1 = Inl AssertFailed"
    by simp_all
  from release_assertions [OF n n, of K0 s_conn_in_use] b
  have 2: "\<exists>s'. free_connection K0 s_conn_in_use 1 = Inr s'" by simp
  from release_assertions [OF n n, of K0 s_in_use] b
  have 3: "\<exists>s'. dealloc_client K0 s_in_use 1 = Inr s'" by simp
  from 1 2 3 a n show ?thesis by auto
qed

text \<open>
  C5 as stated fails: the release of a connection does not assert that no client refers
  to it. In the state with the server link 1 and the remote user 2, both in use and both
  with the connection 1 as their \<^verbatim>\<open>cli_connect\<close>, \<^verbatim>\<open>dealloc_connection\<close> of the connection
  1 succeeds; once the back pointer \<^verbatim>\<open>con_client\<close> is cleared, \<^verbatim>\<open>free_connection\<close>
  succeeds as well; and \<^verbatim>\<open>free_client\<close> of the server link releases the connection 1 to
  the free list while the remote user 2 is in use and still refers to it.
\<close>

theorem connection_released_while_referred_to:
  "refers K0 s_remote 1 1 \<and> refers K0 s_remote 2 1 \<and>
   \<not> isl (dealloc_connection K0 s_remote 1) \<and>
   refers K0 s_unowned 1 1 \<and> refers K0 s_unowned 2 1 \<and>
   con_client (conns s_unowned 1) = 0 \<and>
   \<not> isl (free_connection K0 s_unowned 1) \<and>
   free_client K0 s_remote 1 = Inr s_uplink_freed \<and>
   connection_free_list s_uplink_freed [1] \<and>
   con_magic (conns s_uplink_freed 1) = 0 \<and>
   refers K0 s_uplink_freed 2 1"
  by (simp add: assert_eval refers_def s_uplink_def s_remote_def s_unowned_def
      s_uplink_freed_def)

subsection \<open>free\_client: immediate and deferred release of the connection\<close>

text \<open>
  C7. Let \<^verbatim>\<open>free_client\<close> succeed on a local client (its \<^verbatim>\<open>cli_from\<close> is the client
  itself) with connection \<open>con\<close>. The client record is released to the pool in any case.
  If \<^verbatim>\<open>con_freeflag\<close> is zero and the processing timer is not active, the connection is
  deallocated in the call: it is the head of the connection free list, its magic word
  is cleared, its send queue and receive buffer are empty, and the events of
  \<^verbatim>\<open>dealloc_connection\<close> have happened. Otherwise the
  connection is not released: the connection free list is as before, the connection
  memory has changed in nothing but \<^verbatim>\<open>con_client\<close> of \<open>con\<close> (now \<^verbatim>\<open>NULL\<close>), and the only
  events are the destruction of a pending auth request, a socket deletion if the
  descriptor is open and \<^verbatim>\<open>FREEFLAG_SOCKET\<close> is set, and a timer deletion if
  \<^verbatim>\<open>FREEFLAG_TIMER\<close> is set.
\<close>

theorem free_client_lazy:
  assumes fr: "free_client K s c = Inr s'" and c: "c \<noteq> 0"
    and con: "con = cli_connect (clients s c)"
    and local: "cli_from s c = c"
  shows "clientFreeList s' = c \<and> cli_magic (clients s' c) = 0 \<and> cli_connect (clients s' c) = 0 \<and>
    (if con_freeflag (conns s con) = 0 \<and> \<not> t_active (con_proc (conns s con))
     then connectionFreeList s' = con \<and>
          conns s' = (conns s)(con := (conns s con)\<lparr>con_client := 0, con_dns_reply := 0,
                         con_sendQ := empty_MsgQ, con_recvQ := [],
                         con_next := connectionFreeList s, con_magic := 0\<rparr>) \<and>
          events s' = events s @
            (if con_auth (conns s con) \<noteq> 0 then [DestroyAuthRequest (con_auth (conns s con))] else []) @
            (if con_dns_reply (conns s con) \<noteq> 0 then [MyFree (con_dns_reply (conns s con))] else []) @
            (if -1 < con_fd (conns s con) then [Close (con_fd (conns s con))] else []) @
            [MsgQClear con, ClientDropSendq con, DBufClear con] @
            (if con_listener (conns s con) \<noteq> 0 then [ReleaseListener (con_listener (conns s con))] else [])
     else connectionFreeList s' = connectionFreeList s \<and>
          conns s' = (conns s)(con := (conns s con)\<lparr>con_client := 0\<rparr>) \<and>
          events s' = events s @
            (if con_auth (conns s con) \<noteq> 0 then [DestroyAuthRequest (con_auth (conns s con))] else []) @
            (if -1 < con_fd (conns s con) \<and> con_freeflag (conns s con) AND FREEFLAG_SOCKET K \<noteq> 0
             then [SocketDel con] else []) @
            (if con_freeflag (conns s con) AND FREEFLAG_TIMER K \<noteq> 0 then [TimerDel con] else []))"
proof -
  let ?auth = "if con_auth (conns s con) \<noteq> 0
               then log_event [DestroyAuthRequest (con_auth (conns s con))] s else s"
  let ?s1 = "upd_conn con (\<lambda>c. c\<lparr>con_client := 0\<rparr>) ?auth"
  show ?thesis
  proof (cases "con_freeflag (conns s con) = 0 \<and> \<not> t_active (con_proc (conns s con))")
    case True
    from fr c local True obtain s2 where d: "dealloc_connection K ?s1 con = Inr s2"
      and e: "dealloc_client K (upd_client c (\<lambda>c. c\<lparr>cli_connect := 0\<rparr>) s2) c = Inr s'"
      by (auto simp: free_client_def Let_def cli_from_def cli_auth_def cli_freeflag_def cli_proc_def
          cli_fd_def con upd_conn_def log_event_def split: if_splits sum.splits)
    note p = dealloc_connection_pre [OF d]
    have c1: "conns ?s1 con = (conns s con)\<lparr>con_client := 0\<rparr>"
      "connectionFreeList ?s1 = connectionFreeList s"
      "events ?s1 = events s @
         (if con_auth (conns s con) \<noteq> 0 then [DestroyAuthRequest (con_auth (conns s con))]
          else [])"
      by (simp_all add: upd_conn_fields log_event_fields)
    have c2: "conns ?s1 = (conns s)(con := (conns s con)\<lparr>con_client := 0\<rparr>)"
      by (simp add: upd_conn_fields log_event_fields)
    from p have "dealloc_connection K ?s1 con = Inr (?s1\<lparr>conns := (conns ?s1)
              (con := (conns ?s1 con)\<lparr>con_dns_reply := 0, con_sendQ := empty_MsgQ,
                     con_recvQ := [], con_next := connectionFreeList ?s1, con_magic := 0\<rparr>),
            connectionFreeList := con,
            events := events ?s1 @
              (if con_dns_reply (conns ?s1 con) \<noteq> 0 then [MyFree (con_dns_reply (conns ?s1 con))]
               else []) @
              (if -1 < con_fd (conns ?s1 con) then [Close (con_fd (conns ?s1 con))] else []) @
              [MsgQClear con, ClientDropSendq con, DBufClear con] @
              (if con_listener (conns ?s1 con) \<noteq> 0
               then [ReleaseListener (con_listener (conns ?s1 con))] else [])\<rparr>)"
      by (intro dealloc_connection_result) simp_all
    with d have s2: "connectionFreeList s2 = con"
      "conns s2 = (conns s)(con := (conns s con)\<lparr>con_client := 0, con_dns_reply := 0,
                         con_sendQ := empty_MsgQ, con_recvQ := [],
                         con_next := connectionFreeList s, con_magic := 0\<rparr>)"
      "events s2 = events s @
            (if con_auth (conns s con) \<noteq> 0 then [DestroyAuthRequest (con_auth (conns s con))] else []) @
            (if con_dns_reply (conns s con) \<noteq> 0 then [MyFree (con_dns_reply (conns s con))] else []) @
            (if -1 < con_fd (conns s con) then [Close (con_fd (conns s con))] else []) @
            [MsgQClear con, ClientDropSendq con, DBufClear con] @
            (if con_listener (conns s con) \<noteq> 0 then [ReleaseListener (con_listener (conns s con))] else [])"
      unfolding c1 c2 by auto
    from dealloc_client_Inr [OF e] s2 True show ?thesis
      by (simp add: upd_client_def)
  next
    case False
    let ?s2 = "if -1 < con_fd (conns s con) \<and> con_freeflag (conns s con) AND FREEFLAG_SOCKET K \<noteq> 0
               then log_event [SocketDel con] ?s1 else ?s1"
    let ?s3 = "if con_freeflag (conns s con) AND FREEFLAG_TIMER K \<noteq> 0
               then log_event [TimerDel con] ?s2 else ?s2"
    from fr c local False
    have e: "dealloc_client K (upd_client c (\<lambda>c. c\<lparr>cli_connect := 0\<rparr>) ?s3) c = Inr s'"
      by (auto simp: free_client_def Let_def cli_from_def cli_auth_def cli_freeflag_def cli_proc_def
          cli_fd_def con upd_conn_def log_event_def split: if_splits)
    from dealloc_client_Inr [OF e] False show ?thesis
      by (auto simp: upd_client_def upd_conn_def log_event_def)
  qed
qed

lemmas lazy_eval = pool_eval client_eval s_lazy_def s_deferred_def

theorem free_client_lazy_witness:
  "free_client K0 s_lazy 1 = Inr s_deferred \<and> (1::nat) \<noteq> 0 \<and> cli_from s_lazy 1 = 1 \<and>
   con_freeflag (conns s_lazy 1) = 3 \<and> con_fd (conns s_lazy 1) = 5 \<and>
   connectionFreeList s_deferred = 0 \<and>
   con_magic (conns s_deferred 1) = CONNECTION_MAGIC K0 \<and>
   events s_deferred = [SocketDel 1, TimerDel 1] \<and>
   clientFreeList s_deferred = 1 \<and>
   free_client K0 s_made 1 = Inr s_freed \<and> cli_from s_made 1 = 1 \<and>
   con_freeflag (conns s_made 1) = 0 \<and>
   connectionFreeList s_freed = 1 \<and> con_magic (conns s_freed 1) = 0 \<and>
   events s_freed = [MsgQClear 1, ClientDropSendq 1, DBufClear 1]"
proof -
  have 1: "free_client K0 s_lazy 1 = Inr s_deferred" by (simp add: lazy_eval)
  have 2: "free_client K0 s_made 1 = Inr s_freed" by (simp add: lazy_eval)
  have n: "(1::nat) \<noteq> 0" by simp
  have 3: "cli_from s_lazy 1 = 1" "cli_from s_made 1 = 1" by (simp_all add: lazy_eval)
  have 4: "1 = cli_connect (clients s_lazy 1)" "1 = cli_connect (clients s_made 1)"
    by (simp_all add: lazy_eval)
  have 5: "conns s_lazy 1 = \<lparr>con_magic = 9, con_next = 0, con_client = 1, con_fd = 5,
       con_freeflag = 3, con_nextnick = 970, con_nexttarget = -80, con_handler = 0,
       con_dns_reply = 0, con_listener = 0, con_auth = 0, con_since = 1000,
       con_lasttime = 1000, con_unreg = 3, con_sendQ = empty_MsgQ, con_recvQ = [],
       con_proc = zero_Timer\<rparr>"
    "events s_lazy = []" "connectionFreeList s_lazy = 0"
    by (simp_all add: lazy_eval)
  have 6: "conns s_made 1 = \<lparr>con_magic = 9, con_next = 0, con_client = 1, con_fd = -1,
       con_freeflag = 0, con_nextnick = 970, con_nexttarget = -80, con_handler = 0,
       con_dns_reply = 0, con_listener = 0, con_auth = 0, con_since = 1000,
       con_lasttime = 1000, con_unreg = 3, con_sendQ = empty_MsgQ, con_recvQ = [],
       con_proc = zero_Timer\<rparr>"
    "events s_made = []" "connectionFreeList s_made = 0"
    by (simp_all add: lazy_eval)
  have k: "FREEFLAG_SOCKET K0 = 1" "FREEFLAG_TIMER K0 = 2" "CONNECTION_MAGIC K0 = 9"
    by (simp_all add: K0_def)
  from free_client_lazy [OF 1 n 4(1) 3(1)]
  have a: "connectionFreeList s_deferred = 0 \<and>
   con_magic (conns s_deferred 1) = CONNECTION_MAGIC K0 \<and>
   events s_deferred = [SocketDel 1, TimerDel 1] \<and>
   clientFreeList s_deferred = 1"
    unfolding 5 k by (simp add: zero_Timer_def)
  from free_client_lazy [OF 2 n 4(2) 3(2)]
  have b: "connectionFreeList s_freed = 1 \<and> con_magic (conns s_freed 1) = 0 \<and>
   events s_freed = [MsgQClear 1, ClientDropSendq 1, DBufClear 1]"
    unfolding 6 k by (simp add: zero_Timer_def)
  have 7: "con_freeflag (conns s_lazy 1) = 3" "con_fd (conns s_lazy 1) = 5"
    "con_freeflag (conns s_made 1) = 0"
    unfolding 5 6 by simp_all
  from a b 1 2 n 3 7 show ?thesis by simp
qed

subsection \<open>Doubly linked lists\<close>

lemma dlinked_linked: "dlinked nxt prv b p xs \<Longrightarrow> linked nxt p xs"
  by (induction xs arbitrary: b p) auto

lemma dlinked_cong:
  "(\<And>x. x \<in> set xs \<Longrightarrow> f x = g x \<and> f' x = g' x) \<Longrightarrow>
   dlinked f f' b p xs = dlinked g g' b p xs"
  by (induction xs arbitrary: b p) auto

lemma dlinked_distinct: "dlinked nxt prv b p xs \<Longrightarrow> distinct xs"
  by (auto dest: dlinked_linked linked_distinct)

lemma dlinked_nonnull: "dlinked nxt prv b p xs \<Longrightarrow> 0 \<notin> set xs"
  by (induction xs arbitrary: b p) auto

lemma DLink_overwritten:
  "(d::DLink)\<lparr>dl_cptr := c, dl_prev := p, dl_next := n\<rparr> = \<lparr>dl_next = n, dl_prev = p, dl_cptr = c\<rparr>"
  by (cases d) simp

lemma dlinked_succ:
  "dlinked nxt prv b p xs \<Longrightarrow> c \<in> set xs \<Longrightarrow> nxt c = 0 \<or> nxt c \<in> set xs"
proof (induction xs arbitrary: b p)
  case Nil
  then show ?case by simp
next
  case (Cons x xs)
  show ?case
  proof (cases "c = x")
    case True
    with Cons.prems show ?thesis by (cases xs) auto
  next
    case False
    with Cons.prems have "dlinked nxt prv x (nxt x) xs" and "c \<in> set xs" by auto
    from Cons.IH [OF this] show ?thesis by auto
  qed
qed

lemma dlinked_pred:
  "dlinked nxt prv b p xs \<Longrightarrow> c \<in> set xs \<Longrightarrow> c \<noteq> p \<Longrightarrow> prv c \<in> set xs"
proof (induction xs arbitrary: b p)
  case Nil
  then show ?case by simp
next
  case (Cons x xs)
  then have cx: "c \<in> set xs" and d: "dlinked nxt prv x (nxt x) xs" by auto
  show ?case
  proof (cases "c = nxt x")
    case True
    with cx d have "prv c = x" by (cases xs) auto
    then show ?thesis by simp
  next
    case False
    from Cons.IH [OF d cx False] show ?thesis by simp
  qed
qed

lemma dlinked_head_prev:
  "dlinked nxt prv b p xs \<Longrightarrow> c \<in> set xs \<Longrightarrow> b \<notin> set xs \<Longrightarrow> (prv c = b) = (c = p)"
proof (cases xs)
  case Nil
  assume "c \<in> set xs" with Nil show ?thesis by simp
next
  case (Cons x ys)
  assume d: "dlinked nxt prv b p xs" and c: "c \<in> set xs" and b: "b \<notin> set xs"
  show ?thesis
  proof (cases "c = p")
    case True
    with d Cons show ?thesis by simp
  next
    case False
    from dlinked_pred [OF d c False] b have "prv c \<noteq> b" by auto
    with False show ?thesis by simp
  qed
qed

lemma dlinked_remove:
  "dlinked nxt prv b p xs \<Longrightarrow> c \<in> set xs \<Longrightarrow> nxt c \<noteq> 0 \<Longrightarrow> b \<notin> set xs \<Longrightarrow>
   dlinked (nxt(prv c := nxt c)) (prv(nxt c := prv c)) b (if p = c then nxt c else p)
     (remove1 c xs)"
proof (induction xs arbitrary: b p)
  case Nil
  then show ?case by simp
next
  case (Cons x xs)
  let ?nxt = "nxt(prv c := nxt c)" and ?prv = "prv(nxt c := prv c)"
  from Cons.prems have px: "p = x" and x0: "x \<noteq> 0" and pb: "prv x = b"
    and d: "dlinked nxt prv x (nxt x) xs" and bx: "b \<noteq> x" and bxs: "b \<notin> set xs"
    by auto
  from Cons.prems(1) have "distinct (x # xs)" by (rule dlinked_distinct)
  then have xxs: "x \<notin> set xs" and dxs: "distinct xs" by simp_all
  show ?case
  proof (cases "c = x")
    case True
    with Cons.prems(3) d obtain ys where xs: "xs = nxt c # ys" and n0: "nxt c \<noteq> 0"
      and pn: "prv (nxt c) = c"
      and dy: "dlinked nxt prv (nxt c) (nxt (nxt c)) ys"
      by (cases xs) auto
    from dxs xs have nys: "nxt c \<notin> set ys" by simp
    have nb: "nxt c \<noteq> b" using bxs xs by auto
    have "dlinked ?nxt ?prv (nxt c) (nxt (nxt c)) ys = dlinked nxt prv (nxt c) (nxt (nxt c)) ys"
      by (rule dlinked_cong) (use nys bxs xs True pb in auto)
    moreover have "?prv (nxt c) = b" using True pb by simp
    moreover have "?nxt (nxt c) = nxt (nxt c)" using nb True pb by simp
    ultimately have "dlinked ?nxt ?prv b (nxt c) (nxt c # ys)"
      using dy n0 by (simp del: fun_upd_apply)
    with True px xs show ?thesis by (simp del: fun_upd_apply)
  next
    case False
    with Cons.prems(2) have cxs: "c \<in> set xs" by simp
    from dlinked_succ [OF d cxs] Cons.prems(3) have "nxt c \<in> set xs" by simp
    with xxs have nx: "nxt c \<noteq> x" by auto
    from Cons.IH [OF d cxs Cons.prems(3) xxs]
    have ih: "dlinked ?nxt ?prv x (if nxt x = c then nxt c else nxt x) (remove1 c xs)" .
    have "?nxt x = (if nxt x = c then nxt c else nxt x)"
    proof (cases "nxt x = c")
      case True
      with d cxs have "prv c = x" by (cases xs) auto
      with True show ?thesis by simp
    next
      case nc: False
      from dlinked_pred [OF d cxs] nc have "prv c \<in> set xs" by auto
      with xxs have "prv c \<noteq> x" by auto
      with nc show ?thesis by simp
    qed
    with ih have "dlinked ?nxt ?prv x (?nxt x) (remove1 c xs)" by (simp del: fun_upd_apply)
    moreover have "?prv x = b" using nx pb by simp
    ultimately show ?thesis using False px x0 by (simp del: fun_upd_apply)
  qed
qed

subsection \<open>The parts of remove\_client\_from\_list\<close>

lemma dlinked_pred_neq:
  "dlinked nxt prv b p xs \<Longrightarrow> c \<in> set xs \<Longrightarrow> b \<notin> set xs \<Longrightarrow> prv c \<noteq> c"
proof (induction xs arbitrary: b p)
  case Nil
  then show ?case by simp
next
  case (Cons x xs)
  from Cons.prems(1) have "distinct (x # xs)" by (rule dlinked_distinct)
  then have xxs: "x \<notin> set xs" by simp
  show ?case
  proof (cases "c = x")
    case True
    with Cons.prems show ?thesis by auto
  next
    case False
    with Cons.prems have "dlinked nxt prv x (nxt x) xs" and "c \<in> set xs" by auto
    from Cons.IH [OF this xxs] show ?thesis .
  qed
qed

lemma linked_succ_neq:
  assumes "linked nxt p xs" and "c \<in> set xs" and "nxt c \<noteq> 0"
  shows "nxt c \<noteq> c"
proof -
  from assms(2) obtain as bs where xs: "xs = as @ c # bs" by (auto simp: in_set_conv_decomp)
  with assms(1) have l: "linked nxt (nxt c) bs" by (auto dest: linked_suffix)
  then have "c \<notin> set bs" by (rule linked_notin_tail)
  moreover from l assms(3) have "nxt c \<in> set bs" by (cases bs) auto
  ultimately show ?thesis by auto
qed

lemma delink_client_frame:
  "conns (delink_client s c) = conns s"
  "servers (delink_client s c) = servers s"
  "events (delink_client s c) = events s"
  "clientFreeList (delink_client s c) = clientFreeList s"
  by (simp_all add: delink_client_def Let_def upd_client_def)

lemma delink_client_self:
  "cli_next (clients (delink_client s c) c) = 0 \<and> cli_prev (clients (delink_client s c) c) = 0"
  by (simp add: delink_client_def Let_def upd_client_def)

lemma delink_client_listed:
  assumes wf: "global_client_list s xs" and c: "c \<in> set xs"
    and n: "cli_next (clients s c) \<noteq> 0"
  shows "global_client_list (delink_client s c) (remove1 c xs)"
proof -
  let ?nxt = "\<lambda>p. cli_next (clients s p)" and ?prv = "\<lambda>p. cli_prev (clients s p)"
  let ?N = "cli_next (clients s c)" and ?P = "cli_prev (clients s c)"
  let ?s' = "delink_client s c"
  from wf have d: "dlinked ?nxt ?prv 0 (GlobalClientList s) xs"
    by (simp add: global_client_list_def)
  then have z: "0 \<notin> set xs" by (rule dlinked_nonnull)
  from d have dist: "distinct xs" by (rule dlinked_distinct)
  from d have "linked ?nxt (GlobalClientList s) xs" by (rule dlinked_linked)
  from linked_succ_neq [OF this c n] have cn: "?N \<noteq> c" by simp
  from dlinked_pred_neq [OF d c z] have cp: "?P \<noteq> c" by simp
  from dlinked_head_prev [OF d c z] have hd: "(?P = 0) = (c = GlobalClientList s)" by simp
  have g: "GlobalClientList ?s' = (if GlobalClientList s = c then ?N else GlobalClientList s)"
    using hd n by (auto simp: delink_client_def Let_def upd_client_def)
  have f: "x \<noteq> c \<Longrightarrow> x \<noteq> 0 \<Longrightarrow>
      cli_next (clients ?s' x) = (?nxt(?P := ?N)) x \<and> cli_prev (clients ?s' x) = (?prv(?N := ?P)) x"
    for x
    using n cn cp hd by (auto simp: delink_client_def Let_def upd_client_def)
  from dist have "c \<notin> set (remove1 c xs)" by simp
  moreover from z have "0 \<notin> set (remove1 c xs)" by (auto dest: notin_set_remove1)
  ultimately have "dlinked (\<lambda>p. cli_next (clients ?s' p)) (\<lambda>p. cli_prev (clients ?s' p)) 0
        (if GlobalClientList s = c then ?N else GlobalClientList s) (remove1 c xs)
      = dlinked (?nxt(?P := ?N)) (?prv(?N := ?P)) 0
        (if GlobalClientList s = c then ?N else GlobalClientList s) (remove1 c xs)"
    by (intro dlinked_cong f) (metis, metis)
  with dlinked_remove [OF d c n z] g show ?thesis
    by (simp add: global_client_list_def del: fun_upd_apply)
qed

lemma delink_client_unlisted:
  assumes wf: "global_client_list s xs" and c: "c \<notin> set xs"
    and n: "cli_next (clients s c) = 0"
  shows "global_client_list (delink_client s c) xs"
proof -
  have "dlinked (\<lambda>p. cli_next (clients (delink_client s c) p))
          (\<lambda>p. cli_prev (clients (delink_client s c) p)) 0 (GlobalClientList s) xs
      = dlinked (\<lambda>p. cli_next (clients s p)) (\<lambda>p. cli_prev (clients s p)) 0
          (GlobalClientList s) xs"
    by (rule dlinked_cong) (use c n in \<open>auto simp: delink_client_def Let_def upd_client_def\<close>)
  moreover have "GlobalClientList (delink_client s c) = GlobalClientList s"
    using n by (simp add: delink_client_def Let_def upd_client_def)
  ultimately show ?thesis using wf by (simp add: global_client_list_def)
qed

lemma delink_client_list:
  assumes "global_client_list s xs"
    and "(c \<in> set xs) = (cli_next (clients s c) \<noteq> 0)"
  shows "global_client_list (delink_client s c) (remove1 c xs)"
proof (cases "c \<in> set xs")
  case True
  with assms show ?thesis by (simp add: delink_client_listed)
next
  case False
  with assms have "global_client_list (delink_client s c) xs"
    by (simp add: delink_client_unlisted)
  with False show ?thesis by (simp add: remove1_idem)
qed

lemma dealloc_connection_events:
  assumes "dealloc_connection K s con = Inr s'"
  shows "servers s' = servers s \<and>
    (\<exists>evs. events s' = events s @ evs \<and> list_all teardown_event evs)"
proof -
  note p = dealloc_connection_pre [OF assms]
  from p have "dealloc_connection K s con = Inr (s\<lparr>conns := (conns s)
              (con := (conns s con)\<lparr>con_dns_reply := 0, con_sendQ := empty_MsgQ,
                     con_recvQ := [], con_next := connectionFreeList s, con_magic := 0\<rparr>),
            connectionFreeList := con,
            events := events s @
              (if con_dns_reply (conns s con) \<noteq> 0 then [MyFree (con_dns_reply (conns s con))]
               else []) @
              (if -1 < con_fd (conns s con) then [Close (con_fd (conns s con))] else []) @
              [MsgQClear con, ClientDropSendq con, DBufClear con] @
              (if con_listener (conns s con) \<noteq> 0
               then [ReleaseListener (con_listener (conns s con))] else [])\<rparr>)"
    by (intro dealloc_connection_result) simp_all
  with assms show ?thesis by auto
qed

lemma free_client_Inr:
  assumes fr: "free_client K s c = Inr s'" and c: "c \<noteq> 0"
  shows "GlobalClientList s' = GlobalClientList s \<and> clientFreeList s' = c \<and>
     clients s' = (clients s)
       (c := (clients s c)\<lparr>cli_connect := 0, cli_next := clientFreeList s, cli_magic := 0\<rparr>) \<and>
     servers s' = servers s \<and>
     (\<exists>evs. events s' = events s @ evs \<and> list_all teardown_event evs)"
proof -
  let ?auth = "if cli_auth s c \<noteq> 0 then log_event [DestroyAuthRequest (cli_auth s c)] s else s"
  from fr c obtain s2 where
    e: "dealloc_client K (upd_client c (\<lambda>c. c\<lparr>cli_connect := 0\<rparr>) s2) c = Inr s'"
    and s2: "GlobalClientList s2 = GlobalClientList s \<and> clientFreeList s2 = clientFreeList s \<and>
      clients s2 = clients s \<and> servers s2 = servers s \<and>
      (\<exists>evs. events s2 = events s @ evs \<and> list_all teardown_event evs)"
  proof (cases "cli_from s c = c")
    case False
    with fr c have "dealloc_client K (upd_client c (\<lambda>c. c\<lparr>cli_connect := 0\<rparr>) ?auth) c = Inr s'"
      by (auto simp: free_client_def Let_def cli_from_def cli_auth_def log_event_def
          split: if_splits)
    moreover have "GlobalClientList ?auth = GlobalClientList s \<and> clientFreeList ?auth = clientFreeList s \<and>
      clients ?auth = clients s \<and> servers ?auth = servers s \<and>
      (\<exists>evs. events ?auth = events s @ evs \<and> list_all teardown_event evs)"
      by (simp add: log_event_def)
    ultimately show ?thesis using that by blast
  next
    case True
    let ?s1 = "upd_conn (cli_connect (clients s c)) (\<lambda>c. c\<lparr>con_client := 0\<rparr>) ?auth"
    have s1: "GlobalClientList ?s1 = GlobalClientList s \<and> clientFreeList ?s1 = clientFreeList s \<and>
      clients ?s1 = clients s \<and> servers ?s1 = servers s \<and>
      (\<exists>evs. events ?s1 = events s @ evs \<and> list_all teardown_event evs)"
      by (simp add: log_event_def upd_conn_def)
    show ?thesis
    proof (cases "cli_freeflag ?s1 c = 0 \<and> \<not> t_active (cli_proc ?s1 c)")
      case rel: True
      with fr c True obtain s2 where d: "dealloc_connection K ?s1 (cli_connect (clients s c)) = Inr s2"
        and e: "dealloc_client K (upd_client c (\<lambda>c. c\<lparr>cli_connect := 0\<rparr>) s2) c = Inr s'"
        by (auto simp: free_client_def Let_def cli_from_def cli_auth_def cli_freeflag_def
            cli_proc_def upd_conn_def log_event_def split: if_splits sum.splits)
      from dealloc_connection_Inr [OF d] dealloc_connection_events [OF d] s1
      have "GlobalClientList s2 = GlobalClientList s \<and> clientFreeList s2 = clientFreeList s \<and>
        clients s2 = clients s \<and> servers s2 = servers s \<and>
        (\<exists>evs. events s2 = events s @ evs \<and> list_all teardown_event evs)"
        by auto
      with e that show ?thesis by blast
    next
      case False
      let ?s2 = "if -1 < cli_fd ?s1 c \<and> cli_freeflag ?s1 c AND FREEFLAG_SOCKET K \<noteq> 0
                 then log_event [SocketDel (cli_connect (clients ?s1 c))] ?s1 else ?s1"
      let ?s3 = "if cli_freeflag ?s2 c AND FREEFLAG_TIMER K \<noteq> 0
                 then log_event [TimerDel (cli_connect (clients ?s2 c))] ?s2 else ?s2"
      from fr c True False
      have e: "dealloc_client K (upd_client c (\<lambda>c. c\<lparr>cli_connect := 0\<rparr>) ?s3) c = Inr s'"
        by (auto simp: free_client_def Let_def cli_from_def cli_auth_def cli_freeflag_def
            cli_proc_def cli_fd_def upd_conn_def log_event_def split: if_splits)
      have "GlobalClientList ?s3 = GlobalClientList s \<and> clientFreeList ?s3 = clientFreeList s \<and>
        clients ?s3 = clients s \<and> servers ?s3 = servers s \<and>
        (\<exists>evs. events ?s3 = events s @ evs \<and> list_all teardown_event evs)"
        by (simp add: log_event_def upd_conn_def)
      with e that show ?thesis by blast
    qed
  qed
  from dealloc_client_Inr [OF e] s2 show ?thesis
    by (auto simp: upd_client_def)
qed

lemma release_sub_records_fields:
  "GlobalClientList (release_sub_records K s c) = GlobalClientList s"
  "clientFreeList (release_sub_records K s c) = clientFreeList s"
  "conns (release_sub_records K s c) = conns s"
  "clients (release_sub_records K s c) = (clients s)(c := (clients s c)\<lparr>cli_user := 0\<rparr>)"
  "events (release_sub_records K s c) = events s @
     (if cli_status (clients s c) = STAT_USER K \<and> cli_user (clients s c) \<noteq> 0
      then [AddHistory c, OffHistory c] else []) @
     (if cli_user (clients s c) \<noteq> 0 then [FreeUser (cli_user (clients s c))] else []) @
     (if cli_serv (clients s c) \<noteq> 0
      then (if serv_user (servers s (cli_serv (clients s c))) \<noteq> 0
            then [FreeUser (serv_user (servers s (cli_serv (clients s c))))] else []) @
           (if serv_client_list (servers s (cli_serv (clients s c))) \<noteq> 0
            then [MyFree (serv_client_list (servers s (cli_serv (clients s c))))] else []) @
           [MyFree (serv_last_error_msg (servers s (cli_serv (clients s c)))),
            MyFree (cli_serv (clients s c))]
      else [])"
  by (auto simp add: release_sub_records_def Let_def IsUser_def log_event_def upd_client_def
      fun_eq_iff)

lemma delink_client_kept:
  "cli_status (clients (delink_client s c) x) = cli_status (clients s x)"
  "cli_user (clients (delink_client s c) x) = cli_user (clients s x)"
  "cli_serv (clients (delink_client s c) x) = cli_serv (clients s x)"
  by (simp_all add: delink_client_def Let_def upd_client_def)

lemma remove_client_from_list_Inr:
  assumes "remove_client_from_list K s c = Inr s'"
  shows "c \<noteq> 0" and "free_client K (release_sub_records K (delink_client s c) c) c = Inr s'"
  using assms by (auto simp: remove_client_from_list_def Let_def split: if_splits)

lemma global_client_list_frame:
  assumes "global_client_list s xs" and "c \<notin> set xs"
    and "GlobalClientList s' = GlobalClientList s"
    and "\<And>x. x \<noteq> c \<Longrightarrow> clients s' x = clients s x"
  shows "global_client_list s' xs"
proof -
  have "dlinked (\<lambda>p. cli_next (clients s' p)) (\<lambda>p. cli_prev (clients s' p)) 0
          (GlobalClientList s) xs
      = dlinked (\<lambda>p. cli_next (clients s p)) (\<lambda>p. cli_prev (clients s p)) 0
          (GlobalClientList s) xs"
    by (rule dlinked_cong) (metis assms(2,4))
  with assms(1,3) show ?thesis by (simp add: global_client_list_def)
qed

lemma remove_client_list:
  assumes rm: "remove_client_from_list K s c = Inr s'"
    and wf: "global_client_list s xs"
    and on: "(c \<in> set xs) = (cli_next (clients s c) \<noteq> 0)"
  shows "global_client_list s' (remove1 c xs)" and "c \<notin> set (remove1 c xs)"
proof -
  let ?s1 = "delink_client s c"
  let ?s2 = "release_sub_records K ?s1 c"
  note r = remove_client_from_list_Inr [OF rm]
  note f = free_client_Inr [OF r(2) r(1)]
  from wf have "distinct xs" unfolding global_client_list_def by (rule dlinked_distinct)
  then show notin: "c \<notin> set (remove1 c xs)" by simp
  from wf on have "global_client_list ?s1 (remove1 c xs)" by (rule delink_client_list)
  then show "global_client_list s' (remove1 c xs)" using notin
    by (rule global_client_list_frame) (simp_all add: f release_sub_records_fields)
qed

lemma add_client_to_list_Inr:
  assumes "add_client_to_list K s c = Inr s'"
  shows "c \<noteq> 0" and "GlobalClientList s' = c"
    and "clients s' =
      (if GlobalClientList s = 0
       then (clients s)(c := (clients s c)\<lparr>cli_prev := 0, cli_next := 0\<rparr>)
       else (clients s)(c := (clients s c)\<lparr>cli_prev := 0, cli_next := GlobalClientList s\<rparr>,
              GlobalClientList s :=
                (((clients s)(c := (clients s c)\<lparr>cli_prev := 0, cli_next := GlobalClientList s\<rparr>))
                   (GlobalClientList s))\<lparr>cli_prev := c\<rparr>))"
  using assms
  by (auto simp: add_client_to_list_def Let_def upd_client_def split: if_splits)

lemma add_client_list:
  assumes ad: "add_client_to_list K s c = Inr s'"
    and wf: "global_client_list s xs" and c: "c \<notin> set xs"
  shows "global_client_list s' (c # xs)"
proof (cases xs)
  case Nil
  with wf have "GlobalClientList s = 0" by (simp add: global_client_list_def)
  with add_client_to_list_Inr [OF ad] Nil show ?thesis
    by (simp add: global_client_list_def)
next
  case (Cons y ys)
  with wf have h: "GlobalClientList s = y" and y0: "y \<noteq> 0"
    and tl: "dlinked (\<lambda>p. cli_next (clients s p)) (\<lambda>p. cli_prev (clients s p)) y
               (cli_next (clients s y)) ys"
    by (simp_all add: global_client_list_def)
  from wf have "distinct xs" unfolding global_client_list_def by (rule dlinked_distinct)
  with Cons have yys: "y \<notin> set ys" by simp
  from c Cons have cy: "c \<noteq> y" and cys: "c \<notin> set ys" by auto
  note a = add_client_to_list_Inr [OF ad]
  have "dlinked (\<lambda>p. cli_next (clients s' p)) (\<lambda>p. cli_prev (clients s' p)) y
               (cli_next (clients s y)) ys
      = dlinked (\<lambda>p. cli_next (clients s p)) (\<lambda>p. cli_prev (clients s p)) y
               (cli_next (clients s y)) ys"
    by (rule dlinked_cong) (use yys cys y0 h in \<open>auto simp: a(3)\<close>)
  with tl show ?thesis using a(1,2) cy y0 h Cons
    by (simp add: global_client_list_def a(3))
qed

lemmas list_eval = pool_eval client_eval remove_client_from_list_def delink_client_def
  release_sub_records_def add_client_to_list_def global_client_list_def IsMe_def IsUser_def
  s_me_def s_me_listed_def s_user_def s_listed_def s_removed_def
  s_u1_listed_def s_u2_listed_def s_tail_removed_def s_readded_def

lemma listed_facts:
  "remove_client_from_list K0 s_listed 2 = Inr s_removed"
  "global_client_list s_listed [2, 3]"
  "cli_next (clients s_listed 2) = 3"
  "cli_status (clients s_listed 2) = 64"
  "cli_user (clients s_listed 2) = 5"
  "cli_serv (clients s_listed 2) = 0"
  "events s_listed = []"
  "clientFreeList s_listed = 1"
  "add_client_to_list K0 s_user 2 = Inr s_listed"
  "global_client_list s_user [3]"
  by (simp_all add: list_eval)

subsection \<open>Unregistering a client\<close>

text \<open>
  C6 (as amended). Let \<^verbatim>\<open>remove_client_from_list\<close> succeed on a client \<open>c\<close>, the global
  client list being well formed with the clients \<open>xs\<close> on it, and \<open>c\<close> being on the list
  exactly when its \<^verbatim>\<open>cli_next\<close> is not \<^verbatim>\<open>NULL\<close> (the test the function itself uses: the
  last client of the list is the server's own, which is never removed). Then the list is
  well formed with the clients \<open>xs\<close> without \<open>c\<close>, so \<open>c\<close> is no longer on it; the record
  of \<open>c\<close> is released to the pool: it is the head of the client free list, its magic word
  is cleared, its \<^verbatim>\<open>cli_prev\<close> is \<^verbatim>\<open>NULL\<close> and its \<^verbatim>\<open>cli_next\<close> is the link of the free
  list, the former head. The events of the call are, in this order: the whowas history
  is appended to (and the client taken off line in it) exactly when the status is
  \<^verbatim>\<open>STAT_USER\<close> and there is a \<^verbatim>\<open>User\<close> structure; the \<^verbatim>\<open>User\<close> structure, if any, is
  freed; the \<^verbatim>\<open>Server\<close> structure, if any, is freed with what it owns; then only events
  of tearing down the connection follow.
\<close>

theorem remove_client_from_list_effect:
  assumes rm: "remove_client_from_list K s c = Inr s'"
    and wf: "global_client_list s xs"
    and on: "(c \<in> set xs) = (cli_next (clients s c) \<noteq> 0)"
  shows "global_client_list s' (remove1 c xs) \<and> c \<notin> set (remove1 c xs) \<and>
    cli_prev (clients s' c) = 0 \<and> cli_next (clients s' c) = clientFreeList s \<and>
    clientFreeList s' = c \<and> cli_magic (clients s' c) = 0 \<and> cli_user (clients s' c) = 0 \<and>
    (\<exists>rest. list_all teardown_event rest \<and>
       events s' = events s @
         (if cli_status (clients s c) = STAT_USER K \<and> cli_user (clients s c) \<noteq> 0
          then [AddHistory c, OffHistory c] else []) @
         (if cli_user (clients s c) \<noteq> 0 then [FreeUser (cli_user (clients s c))] else []) @
         (if cli_serv (clients s c) \<noteq> 0
          then (if serv_user (servers s (cli_serv (clients s c))) \<noteq> 0
                then [FreeUser (serv_user (servers s (cli_serv (clients s c))))] else []) @
               (if serv_client_list (servers s (cli_serv (clients s c))) \<noteq> 0
                then [MyFree (serv_client_list (servers s (cli_serv (clients s c))))] else []) @
               [MyFree (serv_last_error_msg (servers s (cli_serv (clients s c)))),
                MyFree (cli_serv (clients s c))]
          else []) @
         rest)"
proof -
  let ?s1 = "delink_client s c"
  let ?s2 = "release_sub_records K ?s1 c"
  note r = remove_client_from_list_Inr [OF rm]
  note f = free_client_Inr [OF r(2) r(1)]
  note l = remove_client_list [OF rm wf on]
  from f obtain rest where rest: "events s' = events ?s2 @ rest" "list_all teardown_event rest"
    by blast
  have ev: "events s' = events s @
         (if cli_status (clients s c) = STAT_USER K \<and> cli_user (clients s c) \<noteq> 0
          then [AddHistory c, OffHistory c] else []) @
         (if cli_user (clients s c) \<noteq> 0 then [FreeUser (cli_user (clients s c))] else []) @
         (if cli_serv (clients s c) \<noteq> 0
          then (if serv_user (servers s (cli_serv (clients s c))) \<noteq> 0
                then [FreeUser (serv_user (servers s (cli_serv (clients s c))))] else []) @
               (if serv_client_list (servers s (cli_serv (clients s c))) \<noteq> 0
                then [MyFree (serv_client_list (servers s (cli_serv (clients s c))))] else []) @
               [MyFree (serv_last_error_msg (servers s (cli_serv (clients s c)))),
                MyFree (cli_serv (clients s c))]
          else []) @
         rest"
    unfolding rest(1) release_sub_records_fields delink_client_kept delink_client_frame
    by simp
  have fields: "cli_prev (clients s' c) = 0 \<and> cli_next (clients s' c) = clientFreeList s \<and>
    clientFreeList s' = c \<and> cli_magic (clients s' c) = 0 \<and> cli_user (clients s' c) = 0"
    using f delink_client_self [of s c]
    by (simp add: release_sub_records_fields delink_client_frame)
  from l fields ev rest(2) show ?thesis by blast
qed

theorem remove_client_from_list_effect_witness:
  "remove_client_from_list K0 s_listed 2 = Inr s_removed \<and>
   global_client_list s_listed [2, 3] \<and>
   (2 \<in> set [2, 3::nat]) = (cli_next (clients s_listed 2) \<noteq> 0) \<and>
   cli_status (clients s_listed 2) = STAT_USER K0 \<and> cli_user (clients s_listed 2) = 5 \<and>
   global_client_list s_removed [3] \<and>
   cli_prev (clients s_removed 2) = 0 \<and> cli_next (clients s_removed 2) = 1 \<and>
   clientFreeList s_removed = 2 \<and>
   (\<exists>rest. list_all teardown_event rest \<and>
      events s_removed = [AddHistory 2, OffHistory 2, FreeUser 5] @ rest)"
proof -
  have on: "(2 \<in> set [2, 3::nat]) = (cli_next (clients s_listed 2) \<noteq> 0)"
    by (simp add: listed_facts(3))
  have k: "STAT_USER K0 = 64" by (simp add: K0_def)
  from remove_client_from_list_effect [OF listed_facts(1,2) on]
  show ?thesis
    unfolding listed_facts(4-8) k using listed_facts(1,2,3) by simp
qed

text \<open>
  C6 as stated fails: after the user 2 has been removed from the list 2, 3, its
  \<^verbatim>\<open>cli_next\<close> is not \<^verbatim>\<open>NULL\<close> but 1, the record that headed the free list before.
  And a client that is the last of the list stays on it: after the user 3 has been
  removed from the list 2, 3 of two users, the head 2 still has 3 as its \<^verbatim>\<open>cli_next\<close>.
\<close>

theorem removed_client_next_not_null:
  "global_client_list s_listed [2, 3] \<and>
   remove_client_from_list K0 s_listed 2 = Inr s_removed \<and>
   cli_next (clients s_removed 2) = 1 \<and> cli_prev (clients s_removed 2) = 0 \<and>
   clientFreeList s_removed = 2 \<and>
   global_client_list s_u2_listed [2, 3] \<and>
   remove_client_from_list K0 s_u2_listed 3 = Inr s_tail_removed \<and>
   GlobalClientList s_tail_removed = 2 \<and> cli_next (clients s_tail_removed 2) = 3"
  by (simp add: list_eval)

subsection \<open>Well-formedness of the global client list\<close>

text \<open>
  C8 (as amended). Let the global client list be well formed with the clients \<open>xs\<close> on
  it. If \<^verbatim>\<open>add_client_to_list\<close> succeeds on a client that is not on the list, the list is
  well formed afterwards, with the client in front of \<open>xs\<close>. If
  \<^verbatim>\<open>remove_client_from_list\<close> succeeds on a client that is on the list exactly when its
  \<^verbatim>\<open>cli_next\<close> is not \<^verbatim>\<open>NULL\<close>, the list is well formed afterwards, with \<open>xs\<close> without the
  client on it.
\<close>

theorem global_client_list_preserved:
  assumes wf: "global_client_list s xs"
  shows "(add_client_to_list K s c = Inr s' \<and> c \<notin> set xs \<longrightarrow>
            global_client_list s' (c # xs)) \<and>
         (remove_client_from_list K s c = Inr s'' \<and>
          (c \<in> set xs) = (cli_next (clients s c) \<noteq> 0) \<longrightarrow>
            global_client_list s'' (remove1 c xs))"
  using wf by (auto intro: add_client_list remove_client_list(1))

theorem global_client_list_preserved_witness:
  "global_client_list s_user [3] \<and> add_client_to_list K0 s_user 2 = Inr s_listed \<and>
   2 \<notin> set [3::nat] \<and> global_client_list s_listed [2, 3] \<and>
   remove_client_from_list K0 s_listed 2 = Inr s_removed \<and>
   (2 \<in> set [2, 3::nat]) = (cli_next (clients s_listed 2) \<noteq> 0) \<and>
   global_client_list s_removed [3]"
proof -
  have on: "(2 \<in> set [2, 3::nat]) = (cli_next (clients s_listed 2) \<noteq> 0)"
    by (simp add: listed_facts(3))
  have nin: "2 \<notin> set [3::nat]" by simp
  from global_client_list_preserved [OF listed_facts(10), of K0 2 s_listed]
    global_client_list_preserved [OF listed_facts(2), of K0 2 _ s_removed]
    listed_facts(1,2,9,10) on nin
  show ?thesis by simp
qed

text \<open>
  C8 as stated fails. Removing the last client 3 of the well-formed list 2, 3 leaves
  \<^verbatim>\<open>cli_next\<close> of the head 2 pointing to 3, whose \<^verbatim>\<open>cli_prev\<close> is now \<^verbatim>\<open>NULL\<close> and not 2.
  Adding the only client 3 of the well-formed list 3 once more makes it its own
  successor and predecessor: the \<^verbatim>\<open>cli_prev\<close> of the head is not \<^verbatim>\<open>NULL\<close>.
\<close>

theorem global_client_list_broken:
  "global_client_list s_u2_listed [2, 3] \<and>
   remove_client_from_list K0 s_u2_listed 3 = Inr s_tail_removed \<and>
   GlobalClientList s_tail_removed = 2 \<and>
   cli_next (clients s_tail_removed 2) = 3 \<and> cli_prev (clients s_tail_removed 3) = 0 \<and>
   global_client_list s_me_listed [3] \<and>
   add_client_to_list K0 s_me_listed 3 = Inr s_readded \<and>
   GlobalClientList s_readded = 3 \<and>
   cli_prev (clients s_readded 3) = 3 \<and> cli_next (clients s_readded 3) = 3"
  by (simp add: list_eval)

subsection \<open>add\_dlink and remove\_dlink\<close>

text \<open>
  C10. Let the variable at \<open>lpp\<close> head a well-formed doubly linked list of the allocated
  nodes \<open>xs\<close>. Then \<^verbatim>\<open>add_dlink\<close> succeeds and returns a new node \<open>n\<close> that holds the
  client and stands in front of \<open>xs\<close>; \<^verbatim>\<open>remove_dlink\<close> of \<open>n\<close> succeeds, and the state
  after it is the state before \<^verbatim>\<open>add_dlink\<close> except for the content of the freed block
  \<open>n\<close>: the variable, the allocated blocks and every node of \<open>xs\<close>, with its next and
  previous pointers, are as they were.
\<close>

theorem dlink_round_trip:
  assumes wf: "dlink_list s lpp xs" and mem: "set xs \<subseteq> set (dlink_mem s)" and lpp: "lpp \<noteq> 0"
  shows "\<exists>n s1 s2.
           add_dlink s lpp cp = Inr (n, s1) \<and> n \<notin> set (dlink_mem s) \<and>
           dlink_list s1 lpp (n # xs) \<and> dl_cptr (dlinks s1 n) = cp \<and>
           remove_dlink s1 lpp n = Inr s2 \<and> dlink_list s2 lpp xs \<and>
           s2 = s\<lparr>dlinks := (dlinks s)(n := \<lparr>dl_next = dlink_vars s lpp, dl_prev = 0, dl_cptr = cp\<rparr>)\<rparr>"
proof -
  let ?n = "MyMalloc (dlink_mem s)"
  let ?h = "dlink_vars s lpp"
  let ?node = "\<lparr>dl_next = ?h, dl_prev = 0, dl_cptr = cp\<rparr>"
  have n0: "?n \<noteq> 0" by (rule MyMalloc_nonnull)
  have fresh: "?n \<notin> set (dlink_mem s)" by (rule MyMalloc_fresh)
  with mem have nxs: "?n \<notin> set xs" by blast
  have rm: "removeAll ?n (dlink_mem s) = dlink_mem s" using fresh by simp
  have vars: "(dlink_vars s)(lpp := ?h) = dlink_vars s" by simp
  show ?thesis
  proof (cases xs)
    case Nil
    with wf have h: "?h = 0" by (simp add: dlink_list_def)
    let ?s1 = "s\<lparr>dlink_mem := ?n # dlink_mem s, dlinks := (dlinks s)(?n := ?node),
                  dlink_vars := (dlink_vars s)(lpp := ?n)\<rparr>"
    have a: "add_dlink s lpp cp = Inr (?n, ?s1)"
      using lpp n0 h by (simp add: add_dlink_def Let_def upd_dlink_def DLink_overwritten)
    have l1: "dlink_list ?s1 lpp (?n # xs)" using n0 h Nil by (simp add: dlink_list_def)
    have r: "remove_dlink ?s1 lpp ?n = Inr (s\<lparr>dlinks := (dlinks s)(?n := ?node)\<rparr>)"
      using lpp n0 h rm vars by (simp add: remove_dlink_def Let_def upd_dlink_def)
    have l2: "dlink_list (s\<lparr>dlinks := (dlinks s)(?n := ?node)\<rparr>) lpp xs"
      using h Nil by (simp add: dlink_list_def)
    from a fresh l1 r l2 show ?thesis by (intro exI conjI) (assumption | simp)+
  next
    case (Cons y ys)
    with wf have h: "?h = y" and y0: "y \<noteq> 0" and yp: "dl_prev (dlinks s y) = 0"
      and tl: "dlinked (\<lambda>p. dl_next (dlinks s p)) (\<lambda>p. dl_prev (dlinks s p)) y
                 (dl_next (dlinks s y)) ys"
      by (simp_all add: dlink_list_def)
    from wf have "distinct xs" unfolding dlink_list_def by (rule dlinked_distinct)
    with Cons have yys: "y \<notin> set ys" by simp
    from nxs Cons have ny: "?n \<noteq> y" and nys: "?n \<notin> set ys" by auto
    let ?s1 = "s\<lparr>dlink_mem := ?n # dlink_mem s,
                  dlinks := (dlinks s)(?n := ?node, y := (dlinks s y)\<lparr>dl_prev := ?n\<rparr>),
                  dlink_vars := (dlink_vars s)(lpp := ?n)\<rparr>"
    have a: "add_dlink s lpp cp = Inr (?n, ?s1)"
      using lpp n0 h y0 ny by (simp add: add_dlink_def Let_def upd_dlink_def DLink_overwritten)
    have "dlinked (\<lambda>p. dl_next (dlinks ?s1 p)) (\<lambda>p. dl_prev (dlinks ?s1 p)) y
                 (dl_next (dlinks s y)) ys
          = dlinked (\<lambda>p. dl_next (dlinks s p)) (\<lambda>p. dl_prev (dlinks s p)) y
                 (dl_next (dlinks s y)) ys"
      by (rule dlinked_cong) (use yys nys in auto)
    with tl have l1: "dlink_list ?s1 lpp (?n # xs)"
      using n0 y0 ny h Cons by (simp add: dlink_list_def)
    have c1: "dl_cptr (dlinks ?s1 ?n) = cp" using ny by simp
    have same: "(dlinks s)(?n := ?node, y := (dlinks s y)\<lparr>dl_prev := 0\<rparr>) = (dlinks s)(?n := ?node)"
      using yp ny by (auto simp: fun_eq_iff)
    have r: "remove_dlink ?s1 lpp ?n = Inr (s\<lparr>dlinks := (dlinks s)(?n := ?node)\<rparr>)"
      using lpp n0 h y0 ny rm same vars by (simp add: remove_dlink_def Let_def upd_dlink_def)
    have "dlinked (\<lambda>p. dl_next (((dlinks s)(?n := ?node)) p)) (\<lambda>p. dl_prev (((dlinks s)(?n := ?node)) p)) 0 ?h xs
          = dlinked (\<lambda>p. dl_next (dlinks s p)) (\<lambda>p. dl_prev (dlinks s p)) 0 ?h xs"
      by (rule dlinked_cong) (use nxs in auto)
    with wf have l2: "dlink_list (s\<lparr>dlinks := (dlinks s)(?n := ?node)\<rparr>) lpp xs"
      by (simp add: dlink_list_def)
    from a fresh l1 c1 r l2 show ?thesis by (intro exI conjI) (assumption | simp)+
  qed
qed

lemmas dlink_eval = add_dlink_def remove_dlink_def upd_dlink_def dlink_list_def MyMalloc_def
  s_two_links_def s0_def Let_def

theorem dlink_round_trip_witness:
  "dlink_list s_two_links 1 [2, 1] \<and> set [2, 1] \<subseteq> set (dlink_mem s_two_links) \<and>
   (1::nat) \<noteq> 0 \<and>
   (\<exists>n s1 s2. add_dlink s_two_links 1 12 = Inr (n, s1) \<and> dlink_list s1 1 [n, 2, 1] \<and>
      remove_dlink s1 1 n = Inr s2 \<and> dlink_list s2 1 [2, 1] \<and>
      dlink_vars s2 = dlink_vars s_two_links \<and> dlink_mem s2 = dlink_mem s_two_links)"
proof -
  have a: "dlink_list s_two_links 1 [2, 1]" by (simp add: dlink_eval)
  have b: "set [2, 1] \<subseteq> set (dlink_mem s_two_links)" by (simp add: dlink_eval)
  have c: "(1::nat) \<noteq> 0" by simp
  from dlink_round_trip [OF a b c, of 12] obtain n s1 s2 where
    "add_dlink s_two_links 1 12 = Inr (n, s1)" "dlink_list s1 1 (n # [2, 1])"
    "remove_dlink s1 1 n = Inr s2" "dlink_list s2 1 [2, 1]"
    "s2 = s_two_links\<lparr>dlinks := (dlinks s_two_links)
            (n := \<lparr>dl_next = dlink_vars s_two_links 1, dl_prev = 0, dl_cptr = 12\<rparr>)\<rparr>"
    by blast
  then have "add_dlink s_two_links 1 12 = Inr (n, s1) \<and> dlink_list s1 1 [n, 2, 1] \<and>
      remove_dlink s1 1 n = Inr s2 \<and> dlink_list s2 1 [2, 1] \<and>
      dlink_vars s2 = dlink_vars s_two_links \<and> dlink_mem s2 = dlink_mem s_two_links"
    by simp
  with a b c show ?thesis by blast
qed

end
